theory Spec2Isabelle
  imports Complex_Main "HOL-Library.Multiset" "HOL-Library.Product_Lexorder"
begin

section \<open>JavaScript values used by \<open>assets/css/js/main.js\<close>\<close>

text \<open>
  Strings are modelled as \<^typ>\<open>string\<close> and cover ASCII text: \<open>toLowerCase\<close> maps the
  letters A to Z to a to z and leaves every other character alone, and \<open>trim\<close> strips the
  ASCII white space and line terminators (TAB, LF, VT, FF, CR, SPACE).
\<close>

definition lower_char :: "char \<Rightarrow> char" where
  "lower_char c =
     (if 65 \<le> (of_char c :: nat) \<and> (of_char c :: nat) \<le> 90
      then char_of ((of_char c :: nat) + 32) else c)"

definition toLowerCase :: "string \<Rightarrow> string" where
  "toLowerCase s = map lower_char s"

definition is_space :: "char \<Rightarrow> bool" where
  "is_space c = ((of_char c :: nat) \<in> {9, 10, 11, 12, 13, 32})"

definition trim :: "string \<Rightarrow> string" where
  "trim s = rev (dropWhile is_space (rev (dropWhile is_space s)))"

text \<open>The decimal digits and their values.\<close>

definition digit_val :: "char \<Rightarrow> nat" where
  "digit_val c = (of_char c :: nat) - 48"

definition is_digit :: "char \<Rightarrow> bool" where
  "is_digit c = (48 \<le> (of_char c :: nat) \<and> (of_char c :: nat) \<le> 57)"

fun startsWith :: "string \<Rightarrow> string \<Rightarrow> bool" where
  "startsWith hay [] = True"
| "startsWith [] (c # q) = False"
| "startsWith (h # hay) (c # q) = (h = c \<and> startsWith hay q)"

text \<open>\<open>hay.includes(q)\<close>: \<open>q\<close> occurs in \<open>hay\<close> as a run of consecutive characters.\<close>

fun str_includes :: "string \<Rightarrow> string \<Rightarrow> bool" where
  "str_includes [] q = (q = [])"
| "str_includes (h # hay) q = (startsWith (h # hay) q \<or> str_includes hay q)"

text \<open>\<open>raw.split(",")\<close>; the empty string splits into one empty piece.\<close>

fun split_comma :: "string \<Rightarrow> string list" where
  "split_comma [] = [[]]"
| "split_comma (c # cs) =
     (if c = CHR '','' then [] # split_comma cs
      else (case split_comma cs of
              [] \<Rightarrow> [[c]]
            | w # ws \<Rightarrow> (c # w) # ws))"

text \<open>
  A JavaScript number. A finite double is represented by the real number it denotes;
  the difference of two finite doubles has the sign of the exact difference, which is all
  that a sort comparator's result is used for.
\<close>

datatype jsnum = Finite real | PosInfinity | NegInfinity | NaN

fun isFinite :: "jsnum \<Rightarrow> bool" where
  "isFinite (Finite r) = True"
| "isFinite PosInfinity = False"
| "isFinite NegInfinity = False"
| "isFinite NaN = False"

fun js_sub :: "jsnum \<Rightarrow> jsnum \<Rightarrow> jsnum" where
  "js_sub (Finite a) (Finite b) = Finite (a - b)"
| "js_sub (Finite a) PosInfinity = NegInfinity"
| "js_sub (Finite a) NegInfinity = PosInfinity"
| "js_sub PosInfinity (Finite b) = PosInfinity"
| "js_sub PosInfinity NegInfinity = PosInfinity"
| "js_sub PosInfinity PosInfinity = NaN"
| "js_sub NegInfinity (Finite b) = NegInfinity"
| "js_sub NegInfinity PosInfinity = NegInfinity"
| "js_sub NegInfinity NegInfinity = NaN"
| "js_sub NaN b = NaN"
| "js_sub a NaN = NaN"

text \<open>\<open>v > 0\<close> and \<open>a >= b\<close> on numbers; every comparison with \<open>NaN\<close> is false.\<close>

fun js_positive :: "jsnum \<Rightarrow> bool" where
  "js_positive (Finite r) = (0 < r)"
| "js_positive PosInfinity = True"
| "js_positive NegInfinity = False"
| "js_positive NaN = False"

fun js_ge :: "jsnum \<Rightarrow> jsnum \<Rightarrow> bool" where
  "js_ge NaN b = False"
| "js_ge a NaN = False"
| "js_ge PosInfinity b = True"
| "js_ge a NegInfinity = True"
| "js_ge (Finite a) (Finite b) = (b \<le> a)"
| "js_ge (Finite a) PosInfinity = False"
| "js_ge NegInfinity b = False"

text \<open>
  \<open>Array.prototype.sort(comparefn)\<close> is a stable sort. It is modelled as the stable
  insertion sort that moves an element behind a later one exactly when \<open>comparefn\<close>
  gives a positive number for the pair; for a consistent comparator every stable sort
  returns this list.
\<close>

fun sort_insert :: "('a \<Rightarrow> 'a \<Rightarrow> jsnum) \<Rightarrow> 'a \<Rightarrow> 'a list \<Rightarrow> 'a list" where
  "sort_insert comparefn x [] = [x]"
| "sort_insert comparefn x (y # ys) =
     (if js_positive (comparefn x y) then y # sort_insert comparefn x ys else x # y # ys)"

definition js_sort :: "('a \<Rightarrow> 'a \<Rightarrow> jsnum) \<Rightarrow> 'a list \<Rightarrow> 'a list" where
  "js_sort comparefn xs = foldr (sort_insert comparefn) xs []"

section \<open>Project filters (\<open>initProjectFilters\<close>)\<close>

text \<open>
  A project card as one call of \<open>apply\<close> reads it: its identity, its text content and
  the data attributes the filters read (\<open>None\<close> when the attribute is absent).
\<close>

record card =
  card_id :: nat
  textContent :: string
  data_category :: "string option"
  data_year :: "string option"
  data_skills :: "string option"
  data_impact :: "string option"
  data_technical :: "string option"

text \<open>
  The controls the filters read: the value of each input (\<open>None\<close> when the control is
  not in the document) and the set of selected skills in insertion order.
\<close>

record controls =
  searchInput :: "string option"
  categorySelect :: "string option"
  yearSelect :: "string option"
  sortSelect :: "string option"
  selectedSkills :: "string list"

text \<open>\<open>card.getAttribute(name) || dflt\<close>: a missing or empty attribute gives the default.\<close>

definition attr_or :: "string option \<Rightarrow> string \<Rightarrow> string" where
  "attr_or a dflt = (case a of None \<Rightarrow> dflt | Some v \<Rightarrow> if v = [] then dflt else v)"

definition readCardText :: "card \<Rightarrow> string" where
  "readCardText c = toLowerCase (textContent c)"

definition getCardCategory :: "card \<Rightarrow> string" where
  "getCardCategory c = attr_or (data_category c) ''all''"

definition getCardYear :: "card \<Rightarrow> string" where
  "getCardYear c = attr_or (data_year c) ''all''"

definition getCardSkills :: "card \<Rightarrow> string list" where
  "getCardSkills c =
     filter (\<lambda>s. s \<noteq> [])
       (map (\<lambda>s. toLowerCase (trim s)) (split_comma (attr_or (data_skills c) [])))"

text \<open>
  The built-in \<open>Number\<close> (string to number) is a parameter \<open>Number\<close> of the model.
\<close>

definition score_of :: "(string \<Rightarrow> jsnum) \<Rightarrow> string option \<Rightarrow> jsnum" where
  "score_of Number raw =
     (let n = (case raw of None \<Rightarrow> NaN | Some r \<Rightarrow> if r = [] then NaN else Number r)
      in if isFinite n then n else Finite 0)"

definition scoreImpact :: "(string \<Rightarrow> jsnum) \<Rightarrow> card \<Rightarrow> jsnum" where
  "scoreImpact Number c = score_of Number (data_impact c)"

definition scoreTechnical :: "(string \<Rightarrow> jsnum) \<Rightarrow> card \<Rightarrow> jsnum" where
  "scoreTechnical Number c = score_of Number (data_technical c)"

definition matchesFilters :: "controls \<Rightarrow> card \<Rightarrow> bool" where
  "matchesFilters ui c =
     (let q = toLowerCase (trim (case searchInput ui of None \<Rightarrow> [] | Some v \<Rightarrow> v)) in
      if q \<noteq> [] \<and> \<not> str_includes (readCardText c) q then False
      else
        let cat = (case categorySelect ui of None \<Rightarrow> ''all'' | Some v \<Rightarrow> v) in
        if cat \<noteq> ''all'' \<and> getCardCategory c \<noteq> cat then False
        else
          let year = (case yearSelect ui of None \<Rightarrow> ''all'' | Some v \<Rightarrow> v) in
          if year \<noteq> ''all'' \<and> getCardYear c \<noteq> year then False
          else
            if selectedSkills ui \<noteq> []
               \<and> \<not> list_all (\<lambda>s. s \<in> set (getCardSkills c)) (selectedSkills ui)
            then False
            else True)"

text \<open>The comparators handed to \<open>sort\<close> by the three sort modes.\<close>

definition impact_cmp :: "(string \<Rightarrow> jsnum) \<Rightarrow> card \<Rightarrow> card \<Rightarrow> jsnum" where
  "impact_cmp Number a b = js_sub (scoreImpact Number b) (scoreImpact Number a)"

definition technical_cmp :: "(string \<Rightarrow> jsnum) \<Rightarrow> card \<Rightarrow> card \<Rightarrow> jsnum" where
  "technical_cmp Number a b = js_sub (scoreTechnical Number b) (scoreTechnical Number a)"

definition recent_cmp :: "(string \<Rightarrow> jsnum) \<Rightarrow> card \<Rightarrow> card \<Rightarrow> jsnum" where
  "recent_cmp Number a b =
     (let ay = Number (getCardYear a);
          by = Number (getCardYear b);
          aOk = isFinite ay;
          bOk = isFinite by
      in if aOk \<and> bOk then js_sub by ay
         else if aOk \<and> \<not> bOk then Finite (- 1)
         else if \<not> aOk \<and> bOk then Finite 1
         else Finite 0)"

text \<open>
  What one call of \<open>apply\<close> writes: the order of the grid's child elements (the list
  of their identities), the \<open>style.display\<close> of each card, and the \<open>hidden\<close>
  flag of the empty message (\<open>None\<close> when the page has no such element).
\<close>

record grid =
  children :: "nat list"
  display :: "nat \<Rightarrow> string"
  emptyMsg :: "bool option"

text \<open>
  \<open>grid.appendChild(node)\<close> on the list of the grid's children: the node leaves its
  place, if it is a child of the grid, and is put last.
\<close>

definition appendChild :: "nat list \<Rightarrow> nat \<Rightarrow> nat list" where
  "appendChild ch n = removeAll n ch @ [n]"

definition set_display :: "controls \<Rightarrow> (nat \<Rightarrow> string) \<Rightarrow> card \<Rightarrow> (nat \<Rightarrow> string)" where
  "set_display ui d c = d(card_id c := (if matchesFilters ui c then [] else ''none''))"

definition sort_visible :: "(string \<Rightarrow> jsnum) \<Rightarrow> controls \<Rightarrow> card list \<Rightarrow> card list" where
  "sort_visible Number ui visible =
     (let sort = (case sortSelect ui of None \<Rightarrow> ''recent'' | Some v \<Rightarrow> v) in
      if sort = ''impact'' then js_sort (impact_cmp Number) visible
      else if sort = ''technical'' then js_sort (technical_cmp Number) visible
      else js_sort (recent_cmp Number) visible)"

text \<open>
  One call of \<open>apply\<close>, on the cards as the call reads them. It returns the new grid
  together with \<open>sorted\<close> (the visible cards in their order) and whether
  \<open>visible\<close> is empty.
\<close>

definition apply_filters ::
  "(string \<Rightarrow> jsnum) \<Rightarrow> controls \<Rightarrow> card list \<Rightarrow> grid \<Rightarrow> grid \<times> card list \<times> bool" where
  "apply_filters Number ui cards g =
     (let visible = filter (matchesFilters ui) cards;
          shown = foldl (set_display ui) (display g) cards;
          sorted = sort_visible Number ui visible;
          order = foldl appendChild (children g) (map card_id sorted);
          msg = (case emptyMsg g of None \<Rightarrow> None | Some h \<Rightarrow> Some (visible \<noteq> []))
      in (\<lparr>children = order, display = shown, emptyMsg = msg\<rparr>, sorted, visible = []))"

definition visibleItemsInOrder ::
  "(string \<Rightarrow> jsnum) \<Rightarrow> controls \<Rightarrow> card list \<Rightarrow> grid \<Rightarrow> card list" where
  "visibleItemsInOrder Number ui cards g = fst (snd (apply_filters Number ui cards g))"

definition isEmpty :: "(string \<Rightarrow> jsnum) \<Rightarrow> controls \<Rightarrow> card list \<Rightarrow> grid \<Rightarrow> bool" where
  "isEmpty Number ui cards g = snd (snd (apply_filters Number ui cards g))"

subsection \<open>The grid as a tree\<close>

text \<open>
  The content of the grid as a list of nodes: text nodes and elements, an element given by
  its identity and its child nodes. The cards are elements of this tree, at any depth.
\<close>

datatype node = TextNode string | ElementNode nat "node list"

text \<open>The identities of the elements of a list of nodes, in document order.\<close>

fun forest_ids :: "node list \<Rightarrow> nat list" where
  "forest_ids [] = []"
| "forest_ids (TextNode s # ns) = forest_ids ns"
| "forest_ids (ElementNode i cs # ns) = i # forest_ids cs @ forest_ids ns"

text \<open>
  \<open>textContent\<close> of an element with the child nodes \<open>ns\<close>: the text of all text
  nodes below it, in document order.
\<close>

fun forest_text :: "node list \<Rightarrow> string" where
  "forest_text [] = []"
| "forest_text (TextNode s # ns) = s @ forest_text ns"
| "forest_text (ElementNode i cs # ns) = forest_text cs @ forest_text ns"

text \<open>The child nodes of the element \<open>n\<close>, if it is among the nodes or below them.\<close>

fun find_node :: "nat \<Rightarrow> node list \<Rightarrow> node list option" where
  "find_node n [] = None"
| "find_node n (TextNode s # ns) = find_node n ns"
| "find_node n (ElementNode i cs # ns) =
     (if i = n then Some cs
      else case find_node n cs of Some x \<Rightarrow> Some x | None \<Rightarrow> find_node n ns)"

text \<open>The nodes without the element \<open>n\<close> and all that is below it.\<close>

fun remove_node :: "nat \<Rightarrow> node list \<Rightarrow> node list" where
  "remove_node n [] = []"
| "remove_node n (TextNode s # ns) = TextNode s # remove_node n ns"
| "remove_node n (ElementNode i cs # ns) =
     (if i = n then remove_node n ns
      else ElementNode i (remove_node n cs) # remove_node n ns)"

text \<open>
  \<open>grid.appendChild(card)\<close> on the tree: the card leaves its place, with all that is
  below it, and becomes the last child of the grid. The cards are elements of the grid and
  stay in it, so a card is always found.
\<close>

definition grid_appendChild :: "node list \<Rightarrow> nat \<Rightarrow> node list" where
  "grid_appendChild grid n =
     (case find_node n grid of
        None \<Rightarrow> grid
      | Some cs \<Rightarrow> remove_node n grid @ [ElementNode n cs])"

text \<open>The identities of the child elements among a list of nodes.\<close>

fun child_ids :: "node list \<Rightarrow> nat list" where
  "child_ids [] = []"
| "child_ids (TextNode s # ns) = child_ids ns"
| "child_ids (ElementNode i cs # ns) = i # child_ids ns"

text \<open>
  What a call of \<open>apply\<close> reads of a card: its attributes, which nothing changes, and
  its text content as the grid holds it at the time of the call (\<open>readCardText\<close> reads
  \<open>card.textContent\<close> at every call).
\<close>

definition read_card :: "node list \<Rightarrow> card \<Rightarrow> card" where
  "read_card grid c =
     c\<lparr>textContent := (case find_node (card_id c) grid of
                          None \<Rightarrow> [] | Some cs \<Rightarrow> forest_text cs)\<rparr>"

text \<open>
  The document that \<open>apply\<close> reads and writes: the child nodes of the grid, the
  \<open>style.display\<close> of each card and the \<open>hidden\<close> flag of the empty message.
\<close>

record document =
  grid_nodes :: "node list"
  card_display :: "nat \<Rightarrow> string"
  empty_hidden :: "bool option"

text \<open>
  \<open>apply\<close> on the document, \<open>cards\<close> being the list collected once by
  \<open>initProjectFilters\<close>: every call reads the cards from the grid as it then is,
  filters and sorts what it read, and re-appends the sorted cards in the tree.
\<close>

definition apply_document ::
  "(string \<Rightarrow> jsnum) \<Rightarrow> controls \<Rightarrow> card list \<Rightarrow> document
     \<Rightarrow> document \<times> card list \<times> bool" where
  "apply_document Number ui cards doc =
     (let read = map (read_card (grid_nodes doc)) cards;
          visible = filter (matchesFilters ui) read;
          shown = foldl (set_display ui) (card_display doc) read;
          sorted = sort_visible Number ui visible;
          nodes = foldl grid_appendChild (grid_nodes doc) (map card_id sorted);
          msg = (case empty_hidden doc of None \<Rightarrow> None | Some h \<Rightarrow> Some (visible \<noteq> []))
      in (\<lparr>grid_nodes = nodes, card_display = shown, empty_hidden = msg\<rparr>,
          sorted, visible = []))"

section \<open>Modals (\<open>initModals\<close>)\<close>

text \<open>
  An element as the modal code sees it: its identity, its lower-case tag name, its
  attributes, whether it is an HTML element, the two layout facts that decide the
  \<open>offsetParent\<close> of an HTML element (whether the element has a layout box, which it
  has not under \<open>display:none\<close>, its own or an ancestor's, or when it is not in the
  document; and whether it is positioned \<open>fixed\<close>), and whether it stands inside a
  disabled \<open>fieldset\<close>.
\<close>

record element =
  ident :: nat
  tag :: string
  attrs :: "(string \<times> string) list"
  html_element :: bool
  layout_box :: bool
  position_fixed :: bool
  in_disabled_fieldset :: bool

definition getAttribute :: "element \<Rightarrow> string \<Rightarrow> string option" where
  "getAttribute e name = map_of (attrs e) name"

text \<open>
  What \<open>el.offsetParent\<close> reads. Only HTML elements have the property: on an SVG element
  it reads \<open>undefined\<close>. On an HTML element it is \<open>null\<close> when the
  element has no layout box or is positioned \<open>fixed\<close>, and an element otherwise (the
  elements inside a container are neither the root nor the body).
\<close>

datatype offset_parent = OffsetUndefined | OffsetNull | OffsetElement

definition offsetParent :: "element \<Rightarrow> offset_parent" where
  "offsetParent e =
     (if \<not> html_element e then OffsetUndefined
      else if \<not> layout_box e \<or> position_fixed e then OffsetNull
      else OffsetElement)"

text \<open>The three shapes of selector in \<open>getFocusable\<close>:
  \<open>t[a]\<close>, \<open>t:not([a])\<close> and \<open>[a]:not([a='v'])\<close>.\<close>

datatype selector =
  TagWithAttr string string
| TagWithoutAttr string string
| AttrNotValue string string

fun matches :: "element \<Rightarrow> selector \<Rightarrow> bool" where
  "matches e (TagWithAttr t a) = (tag e = t \<and> getAttribute e a \<noteq> None)"
| "matches e (TagWithoutAttr t a) = (tag e = t \<and> getAttribute e a = None)"
| "matches e (AttrNotValue a v) = (getAttribute e a \<noteq> None \<and> getAttribute e a \<noteq> Some v)"

definition selectors :: "selector list" where
  "selectors =
     [TagWithAttr ''a'' ''href'',
      TagWithoutAttr ''button'' ''disabled'',
      TagWithoutAttr ''input'' ''disabled'',
      TagWithoutAttr ''select'' ''disabled'',
      TagWithoutAttr ''textarea'' ''disabled'',
      AttrNotValue ''tabindex'' ''-1'']"

text \<open>
  \<open>qsa(sels.join(","), root)\<close>, with the container \<open>root\<close> given as the list of its descendants in
  document order: those that match one of the selectors, in the same order.
\<close>

definition qsa :: "selector list \<Rightarrow> element list \<Rightarrow> element list" where
  "qsa sels container = filter (\<lambda>e. list_ex (matches e) sels) container"

definition getFocusable :: "element list \<Rightarrow> element list" where
  "getFocusable container =
     filter (\<lambda>el. offsetParent el \<noteq> OffsetNull) (qsa selectors container)"

text \<open>
  The document as the modal code reads it at the time of a call: the \<open>.modal\<close>
  elements in document order, the descendants of each modal in document order (with the
  layout they have while the modal carries \<open>is_open\<close>, the only time they are
  queried), which nodes have a \<open>focus\<close> method, and which nodes take the focus when
  \<open>focus()\<close> is called on them.
\<close>

record dom =
  modals :: "nat list"
  subtree :: "nat \<Rightarrow> element list"
  has_focus_method :: "nat \<Rightarrow> bool"
  accepts_focus :: "nat \<Rightarrow> bool"

text \<open>
  What the modal code changes: \<open>document.activeElement\<close>, the variable \<open>lastFocus\<close>,
  the modals carrying the class \<open>is_open\<close>, the \<open>aria-hidden\<close> attribute of each
  modal, and \<open>document.body.style.overflow\<close>.
\<close>

record page =
  activeElement :: "nat option"
  lastFocus :: "nat option"
  is_open :: "nat set"
  aria_hidden :: "nat \<rightharpoonup> string"
  body_overflow :: string

definition focus :: "dom \<Rightarrow> nat \<Rightarrow> page \<Rightarrow> page" where
  "focus d n s = (if accepts_focus d n then s\<lparr>activeElement := Some n\<rparr> else s)"

definition openModal :: "dom \<Rightarrow> nat option \<Rightarrow> page \<Rightarrow> page" where
  "openModal d modal s =
     (case modal of
        None \<Rightarrow> s
      | Some m \<Rightarrow>
          (let s1 = s\<lparr>lastFocus := activeElement s\<rparr>;
               s2 = s1\<lparr>is_open := insert m (is_open s1)\<rparr>;
               s3 = s2\<lparr>aria_hidden := (aria_hidden s2)(m \<mapsto> ''false'')\<rparr>;
               s4 = s3\<lparr>body_overflow := ''hidden''\<rparr>
           in case getFocusable (subtree d m) of
                [] \<Rightarrow> s4
              | first # rest \<Rightarrow> focus d (ident first) s4))"

definition closeModal :: "dom \<Rightarrow> nat option \<Rightarrow> page \<Rightarrow> page" where
  "closeModal d modal s =
     (case modal of
        None \<Rightarrow> s
      | Some m \<Rightarrow>
          (let s1 = s\<lparr>is_open := is_open s - {m}\<rparr>;
               s2 = s1\<lparr>aria_hidden := (aria_hidden s1)(m \<mapsto> ''true'')\<rparr>;
               s3 = s2\<lparr>body_overflow := []\<rparr>;
               s4 = (case lastFocus s3 of
                       None \<Rightarrow> s3
                     | Some t \<Rightarrow> if has_focus_method d t then focus d t s3 else s3)
           in s4\<lparr>lastFocus := None\<rparr>))"

text \<open>\<open>qs(".modal.is_open")\<close>: the first modal in document order that is open.\<close>

definition open_modal :: "dom \<Rightarrow> page \<Rightarrow> nat option" where
  "open_modal d s = find (\<lambda>m. m \<in> is_open s) (modals d)"

record key_event =
  key :: string
  shiftKey :: bool

text \<open>The handler that closes on Escape.\<close>

definition escape_keydown :: "dom \<Rightarrow> key_event \<Rightarrow> page \<Rightarrow> page" where
  "escape_keydown d e s =
     (if key e \<noteq> ''Escape'' then s
      else case open_modal d s of None \<Rightarrow> s | Some m \<Rightarrow> closeModal d (Some m) s)"


section \<open>The specification's predicates\<close>

text \<open>
  The Filter State of the specification, read off the controls: the query is the value
  of the search input, the selected category and year are the values of the two selects
  (\<open>"all"\<close> without the control), the selected skills are the members of
  \<open>selectedSkills\<close>.
\<close>

definition query_of :: "controls \<Rightarrow> string" where
  "query_of ui = (case searchInput ui of None \<Rightarrow> [] | Some v \<Rightarrow> v)"

definition category_of :: "controls \<Rightarrow> string" where
  "category_of ui = (case categorySelect ui of None \<Rightarrow> ''all'' | Some v \<Rightarrow> v)"

definition year_of :: "controls \<Rightarrow> string" where
  "year_of ui = (case yearSelect ui of None \<Rightarrow> ''all'' | Some v \<Rightarrow> v)"

text \<open>
  Case-insensitive substring: \<open>q\<close> occurs in \<open>hay\<close> as a run of consecutive
  characters, compared up to the case of letters.
\<close>

fun ci_startsWith :: "string \<Rightarrow> string \<Rightarrow> bool" where
  "ci_startsWith hay [] = True"
| "ci_startsWith [] (c # q) = False"
| "ci_startsWith (h # hay) (c # q) = (lower_char h = lower_char c \<and> ci_startsWith hay q)"

fun ci_substring :: "string \<Rightarrow> string \<Rightarrow> bool" where
  "ci_substring [] q = (q = [])"
| "ci_substring (h # hay) q = (ci_startsWith (h # hay) q \<or> ci_substring hay q)"

text \<open>
  The four predicates as the specification words them; the searchable text of an item is
  its case-folded text (\<open>readCardText\<close>), its category, year and skill set are what
  \<open>getCardCategory\<close>, \<open>getCardYear\<close> and \<open>getCardSkills\<close> read.
\<close>

definition text_predicate :: "string \<Rightarrow> card \<Rightarrow> bool" where
  "text_predicate query c = (query = [] \<or> ci_substring (readCardText c) query)"

definition category_predicate :: "string \<Rightarrow> card \<Rightarrow> bool" where
  "category_predicate category c = (category = ''all'' \<or> getCardCategory c = category)"

definition year_predicate :: "string \<Rightarrow> card \<Rightarrow> bool" where
  "year_predicate year c = (year = ''all'' \<or> getCardYear c = year)"

definition skill_predicate :: "string set \<Rightarrow> card \<Rightarrow> bool" where
  "skill_predicate selected c = (selected = {} \<or> selected \<subseteq> set (getCardSkills c))"

text \<open>The catalog filtered by the four predicates on the Filter State as it stands.\<close>

definition spec_visible :: "controls \<Rightarrow> card list \<Rightarrow> card list" where
  "spec_visible ui cards =
     filter (\<lambda>c. text_predicate (query_of ui) c
                \<and> category_predicate (category_of ui) c
                \<and> year_predicate (year_of ui) c
                \<and> skill_predicate (set (selectedSkills ui)) c) cards"











text \<open>A modal in the Closed state: not marked open and hidden from assistive technology.\<close>

definition modal_closed :: "page \<Rightarrow> nat \<Rightarrow> bool" where
  "modal_closed s m = (m \<notin> is_open s \<and> aria_hidden s m = Some ''true'')"

section \<open>Grids without nested cards\<close>

text \<open>Element \<open>k\<close> is below element \<open>n\<close>.\<close>

definition nested_in :: "node list \<Rightarrow> nat \<Rightarrow> nat \<Rightarrow> bool" where
  "nested_in grid k n =
     (case find_node n grid of None \<Rightarrow> False | Some cs \<Rightarrow> k \<in> set (forest_ids cs))"

text \<open>No card is below another card, and every card is in the grid.\<close>

definition no_nested_cards :: "node list \<Rightarrow> nat list \<Rightarrow> bool" where
  "no_nested_cards grid ids = list_all (\<lambda>n. list_all (\<lambda>k. \<not> nested_in grid k n) ids) ids"

definition cards_in_grid :: "node list \<Rightarrow> nat list \<Rightarrow> bool" where
  "cards_in_grid grid ids = list_all (\<lambda>n. find_node n grid \<noteq> None) ids"

text \<open>The nodes without the elements of a set of identities, and all that is below them.\<close>

fun strip :: "nat set \<Rightarrow> node list \<Rightarrow> node list" where
  "strip S [] = []"
| "strip S (TextNode s # ns) = TextNode s # strip S ns"
| "strip S (ElementNode i cs # ns) =
     (if i \<in> S then strip S ns else ElementNode i (strip S cs) # strip S ns)"

section \<open>Sort keys\<close>

text \<open>The real number a finite number denotes (0 for the others).\<close>

fun num_val :: "jsnum \<Rightarrow> real" where
  "num_val (Finite r) = r"
| "num_val PosInfinity = 0"
| "num_val NegInfinity = 0"
| "num_val NaN = 0"

text \<open>\<open>aOk\<close> and \<open>bOk\<close> of the recent comparator: the card's year converts to a finite number.\<close>

definition year_numeric :: "(string \<Rightarrow> jsnum) \<Rightarrow> card \<Rightarrow> bool" where
  "year_numeric Number c = isFinite (Number (getCardYear c))"

text \<open>
  The keys by which the three comparators order cards: the negated score, and for the
  recent mode the pair of the class (0 with a numeric year, 1 without) and the negated year.
\<close>

definition impact_key :: "(string \<Rightarrow> jsnum) \<Rightarrow> card \<Rightarrow> real" where
  "impact_key Number c = - num_val (scoreImpact Number c)"

definition technical_key :: "(string \<Rightarrow> jsnum) \<Rightarrow> card \<Rightarrow> real" where
  "technical_key Number c = - num_val (scoreTechnical Number c)"

definition recent_key :: "(string \<Rightarrow> jsnum) \<Rightarrow> card \<Rightarrow> nat \<times> real" where
  "recent_key Number c =
     (if year_numeric Number c then (0, - num_val (Number (getCardYear c))) else (1, 0))"

section \<open>Example inputs\<close>

text \<open>
  An instance of \<open>Number\<close> for the examples. It agrees with the built-in on strings of
  one to fifteen decimal digits, which denote their value exactly, and on \<open>"all"\<close>,
  which is not a number; the examples convert no other string.
\<close>

definition example_Number :: "string \<Rightarrow> jsnum" where
  "example_Number s =
     (if s \<noteq> [] \<and> length s \<le> 15 \<and> list_all is_digit s
      then Finite (real (foldl (\<lambda>n c. 10 * n + digit_val c) 0 s)) else NaN)"

text \<open>The catalog of the specification's example scenario, and a grid that shows it.\<close>

definition item0 :: card where
  "item0 = \<lparr>card_id = 0, textContent = ''Brake Rotor'', data_category = Some ''x'',
     data_year = Some ''2024'', data_skills = Some ''CAD, testing'',
     data_impact = Some ''80'', data_technical = Some ''70''\<rparr>"

definition item1 :: card where
  "item1 = \<lparr>card_id = 1, textContent = ''Wind Tunnel'', data_category = Some ''y'',
     data_year = Some ''2023'', data_skills = Some ''testing'',
     data_impact = Some ''95'', data_technical = Some ''70''\<rparr>"

definition item2 :: card where
  "item2 = \<lparr>card_id = 2, textContent = ''Pedal Box'', data_category = Some ''x'',
     data_year = Some ''2024'', data_skills = None,
     data_impact = Some ''60'', data_technical = None\<rparr>"

definition item3 :: card where
  "item3 = \<lparr>card_id = 3, textContent = ''Sketches'', data_category = None,
     data_year = None, data_skills = None,
     data_impact = Some ''80'', data_technical = None\<rparr>"

definition grid0 :: grid where
  "grid0 = \<lparr>children = [0, 1, 2, 3], display = (\<lambda>n. []), emptyMsg = Some True\<rparr>"

definition no_filter :: controls where
  "no_filter = \<lparr>searchInput = Some [], categorySelect = Some ''all'',
     yearSelect = Some ''all'', sortSelect = Some ''recent'', selectedSkills = []\<rparr>"

definition impact_sort :: controls where
  "impact_sort = no_filter\<lparr>sortSelect := Some ''impact''\<rparr>"

text \<open>
  A page with two modals, 10 and 20, both closed, and the focus on a trigger button 5; some
  elements of their content; two elements with a negative \<open>tabindex\<close>; a button
  positioned \<open>fixed\<close>, a link that is not displayed, a disabled button, an SVG link
  inside a subtree that is not displayed, and a button inside a disabled \<open>fieldset\<close>.
\<close>

definition close1 :: element where
  "close1 = \<lparr>ident = 11, tag = ''button'', attrs = [(''data_modal_close'', [])],
     html_element = True, layout_box = True,
     position_fixed = False, in_disabled_fieldset = False\<rparr>"

definition img1 :: element where
  "img1 = \<lparr>ident = 12, tag = ''img'', attrs = [(''id'', ''image_modal_img'')],
     html_element = True, layout_box = True,
     position_fixed = False, in_disabled_fieldset = False\<rparr>"

definition link1 :: element where
  "link1 = \<lparr>ident = 13, tag = ''a'', attrs = [(''href'', ''#top'')],
     html_element = True, layout_box = True,
     position_fixed = False, in_disabled_fieldset = False\<rparr>"

definition input1 :: element where
  "input1 = \<lparr>ident = 14, tag = ''input'', attrs = [(''type'', ''text'')],
     html_element = True, layout_box = True,
     position_fixed = False, in_disabled_fieldset = False\<rparr>"

definition close2 :: element where
  "close2 = \<lparr>ident = 21, tag = ''button'', attrs = [(''data_modal_close'', [])],
     html_element = True, layout_box = True,
     position_fixed = False, in_disabled_fieldset = False\<rparr>"



definition page_dom :: dom where
  "page_dom = \<lparr>modals = [10, 20],
     subtree = (\<lambda>m. if m = 10 then [close1, img1, input1, link1]
                    else if m = 20 then [close2] else []),
     has_focus_method = (\<lambda>n. True),
     accepts_focus = (\<lambda>n. n \<in> {5, 11, 13, 14, 21})\<rparr>"

definition page0 :: page where
  "page0 = \<lparr>activeElement = Some 5, lastFocus = None, is_open = {},
     aria_hidden = [10 \<mapsto> ''true'', 20 \<mapsto> ''true''], body_overflow = []\<rparr>"

definition open1 :: page where
  "open1 = openModal page_dom (Some 10) page0"







text \<open>
  A grid in which one card holds another, and a grid whose cards lie side by side, one of
  them in a wrapper.
\<close>

definition outer_card :: card where
  "outer_card = \<lparr>card_id = 4, textContent = ''Alpha Beta'', data_category = None,
     data_year = None, data_skills = None, data_impact = None, data_technical = None\<rparr>"

definition inner_card :: card where
  "inner_card = \<lparr>card_id = 5, textContent = ''Beta'', data_category = None,
     data_year = None, data_skills = None, data_impact = None, data_technical = None\<rparr>"

definition nested_doc :: document where
  "nested_doc = \<lparr>grid_nodes =
       [ElementNode 4 [TextNode ''Alpha '', ElementNode 5 [TextNode ''Beta'']]],
     card_display = (\<lambda>n. []), empty_hidden = Some True\<rparr>"

definition flat_doc :: document where
  "flat_doc = \<lparr>grid_nodes =
       [ElementNode 0 [ElementNode 7 [TextNode ''Brake''], TextNode '' Rotor''],
        ElementNode 9 [ElementNode 1 [TextNode ''Wind Tunnel'']],
        TextNode '' '',
        ElementNode 2 [TextNode ''Pedal Box'']],
     card_display = (\<lambda>n. []), empty_hidden = Some True\<rparr>"

section \<open>Strings\<close>

lemma lower_char_idem: "lower_char (lower_char c) = lower_char c"
  by (auto simp: lower_char_def)

lemma toLowerCase_idem: "toLowerCase (toLowerCase s) = toLowerCase s"
  by (simp add: toLowerCase_def lower_char_idem)

lemma toLowerCase_Nil_iff: "toLowerCase s = [] \<longleftrightarrow> s = []"
  by (simp add: toLowerCase_def)

lemma startsWith_iff: "startsWith hay q \<longleftrightarrow> (\<exists>post. hay = q @ post)"
  by (induction hay q rule: startsWith.induct) auto

text \<open>\<open>str_includes\<close> is the substring test.\<close>

lemma str_includes_iff: "str_includes hay q \<longleftrightarrow> (\<exists>pre post. hay = pre @ q @ post)"
proof (induction hay)
  case Nil
  then show ?case by auto
next
  case (Cons h hay)
  show ?case
  proof
    assume "str_includes (h # hay) q"
    then consider "startsWith (h # hay) q" | "str_includes hay q" by auto
    then show "\<exists>pre post. h # hay = pre @ q @ post"
    proof cases
      case 1
      then obtain post where "h # hay = q @ post" by (auto simp: startsWith_iff)
      then have "h # hay = [] @ q @ post" by simp
      then show ?thesis by blast
    next
      case 2
      then obtain pre post where "hay = pre @ q @ post" using Cons.IH by blast
      then have "h # hay = (h # pre) @ q @ post" by simp
      then show ?thesis by blast
    qed
  next
    assume "\<exists>pre post. h # hay = pre @ q @ post"
    then obtain pre post where eq: "h # hay = pre @ q @ post" by blast
    show "str_includes (h # hay) q"
    proof (cases pre)
      case Nil
      with eq have "startsWith (h # hay) q" by (auto simp: startsWith_iff)
      then show ?thesis by simp
    next
      case (Cons p pre')
      with eq have "hay = pre' @ q @ post" by simp
      then have "str_includes hay q" using Cons.IH by blast
      then show ?thesis by simp
    qed
  qed
qed

lemma ci_startsWith_lower:
  "ci_startsWith hay q = startsWith (toLowerCase hay) (toLowerCase q)"
  by (induction hay q rule: ci_startsWith.induct) (simp_all add: toLowerCase_def)

lemma ci_substring_lower:
  "ci_substring hay q = str_includes (toLowerCase hay) (toLowerCase q)"
proof (induction hay)
  case Nil
  show ?case by (simp add: toLowerCase_def)
next
  case (Cons h hay)
  have "ci_startsWith (h # hay) q = startsWith (toLowerCase (h # hay)) (toLowerCase q)"
    by (rule ci_startsWith_lower)
  with Cons show ?case by (simp add: toLowerCase_def)
qed

lemma dropWhile_fix: "xs = [] \<or> \<not> P (hd xs) \<Longrightarrow> dropWhile P xs = xs"
  by (cases xs) auto

text \<open>A trimmed string is empty or has no white space at either end.\<close>

lemma trim_ends: "trim s = [] \<or> (\<not> is_space (hd (trim s)) \<and> \<not> is_space (last (trim s)))"
proof -
  define t where "t = dropWhile is_space s"
  define r where "r = dropWhile is_space (rev t)"
  have tr: "trim s = rev r" by (simp add: trim_def t_def r_def)
  show ?thesis
  proof (cases "r = []")
    case True
    then show ?thesis by (simp add: tr)
  next
    case False
    then have hr: "\<not> is_space (hd r)" unfolding r_def by (metis hd_dropWhile)
    have "rev t = takeWhile is_space (rev t) @ r" by (simp add: r_def)
    then have "t = rev r @ rev (takeWhile is_space (rev t))"
      by (metis rev_append rev_rev_ident)
    then have "hd t = hd (rev r)" using False by (metis hd_append2 rev_is_Nil_conv)
    moreover have "t \<noteq> []" using False r_def by auto
    then have "\<not> is_space (hd t)" unfolding t_def by (metis hd_dropWhile)
    ultimately have "\<not> is_space (hd (rev r))" by simp
    moreover have "last (rev r) = hd r" using False by (simp add: last_rev)
    ultimately show ?thesis using hr by (simp add: tr)
  qed
qed

lemma trim_idem: "trim (trim s) = trim s"
proof -
  let ?u = "trim s"
  from trim_ends [of s] have a: "dropWhile is_space ?u = ?u"
    by (intro dropWhile_fix) auto
  from trim_ends [of s] have "rev ?u = [] \<or> \<not> is_space (hd (rev ?u))"
    by (auto simp: hd_rev)
  then have b: "dropWhile is_space (rev ?u) = rev ?u" by (rule dropWhile_fix)
  have "trim ?u = rev (dropWhile is_space (rev (dropWhile is_space ?u)))"
    by (simp only: trim_def)
  also have "\<dots> = ?u" by (simp only: a b rev_rev_ident)
  finally show ?thesis .
qed

lemma trim_spaces:
  assumes "list_all is_space s"
  shows "trim s = []"
proof -
  from assms have h: "dropWhile is_space s = []"
    by (induction s) auto
  show ?thesis unfolding trim_def h by simp
qed

section \<open>The filter is the conjunction of the four predicates\<close>

lemma text_predicate_code:
  "text_predicate query c =
     (toLowerCase query = [] \<or> str_includes (readCardText c) (toLowerCase query))"
  by (simp add: text_predicate_def ci_substring_lower readCardText_def toLowerCase_idem
      toLowerCase_Nil_iff)

lemma list_all_subset: "list_all (\<lambda>s. s \<in> A) xs \<longleftrightarrow> set xs \<subseteq> A"
  by (auto simp: list_all_iff)

lemma matchesFilters_conj:
  "matchesFilters ui c =
     (text_predicate (trim (query_of ui)) c
      \<and> category_predicate (category_of ui) c
      \<and> year_predicate (year_of ui) c
      \<and> skill_predicate (set (selectedSkills ui)) c)"
  unfolding matchesFilters_def text_predicate_code category_predicate_def year_predicate_def
    skill_predicate_def query_of_def category_of_def year_of_def Let_def list_all_subset
  by auto

text \<open>
  C7. The year filter compares strings: with a selected year \<open>y\<close>, a card passes exactly
  when it passes the other filters and \<open>y\<close> is \<open>"all"\<close> or is, character for
  character, the card's year. A card whose year converts to the same number as \<open>y\<close>
  but is written differently does not pass.
\<close>

theorem year_filter_string_equality:
  "(matchesFilters (ui\<lparr>yearSelect := Some y\<rparr>) c
      \<longleftrightarrow> matchesFilters (ui\<lparr>yearSelect := None\<rparr>) c \<and> (y = ''all'' \<or> getCardYear c = y))
   \<and> (y \<noteq> ''all'' \<and> getCardYear c \<noteq> y \<and> Number (getCardYear c) = Number y
        \<longrightarrow> \<not> matchesFilters (ui\<lparr>yearSelect := Some y\<rparr>) c)"
  by (auto simp: matchesFilters_conj year_predicate_def year_of_def query_of_def
      category_of_def)

theorem year_filter_string_equality_witness:
  "example_Number (getCardYear (item0\<lparr>data_year := Some ''02024''\<rparr>)) = example_Number ''2024''
   \<and> matchesFilters (no_filter\<lparr>yearSelect := None\<rparr>) (item0\<lparr>data_year := Some ''02024''\<rparr>)
   \<and> \<not> matchesFilters (no_filter\<lparr>yearSelect := Some ''2024''\<rparr>)
         (item0\<lparr>data_year := Some ''02024''\<rparr>)"
  using year_filter_string_equality
    [where ui = no_filter and y = "''2024''" and Number = example_Number
       and c = "item0\<lparr>data_year := Some ''02024''\<rparr>"]
  by (simp add: getCardYear_def attr_or_def item0_def example_Number_def is_digit_def
      digit_val_def no_filter_def matchesFilters_def trim_def toLowerCase_def)

text \<open>
  C10. The text filter works on the trimmed query: a query of white space only filters
  like the empty query and lets every card through the text test, and a query filters
  like its trimmed form.
\<close>

theorem query_is_trimmed:
  "(list_all is_space q \<longrightarrow>
      matchesFilters (ui\<lparr>searchInput := Some q\<rparr>) c
        = matchesFilters (ui\<lparr>searchInput := Some []\<rparr>) c
      \<and> matchesFilters \<lparr>searchInput = Some q, categorySelect = None, yearSelect = None,
           sortSelect = srt, selectedSkills = []\<rparr> c)
   \<and> matchesFilters (ui\<lparr>searchInput := Some q\<rparr>) c
        = matchesFilters (ui\<lparr>searchInput := Some (trim q)\<rparr>) c"
  by (simp add: matchesFilters_def trim_idem trim_spaces toLowerCase_def)

theorem query_is_trimmed_witness:
  "list_all is_space [CHR '' '', CHR 0x09]
   \<and> matchesFilters (no_filter\<lparr>searchInput := Some [CHR '' '', CHR 0x09]\<rparr>) item0
   \<and> matchesFilters (no_filter\<lparr>searchInput := Some '' roTOR ''\<rparr>) item0
        = matchesFilters (no_filter\<lparr>searchInput := Some ''roTOR''\<rparr>) item0"
  using query_is_trimmed [where q = "[CHR '' '', CHR 0x09]" and ui = no_filter and c = item0]
    query_is_trimmed [where q = "'' roTOR ''" and ui = no_filter and c = item0]
  by (simp add: is_space_def trim_def no_filter_def item0_def matchesFilters_def
      toLowerCase_def)

section \<open>Sorting\<close>

lemma isFinite_iff: "isFinite n \<longleftrightarrow> n = Finite (num_val n)"
  by (cases n) auto

lemma mset_sort_insert: "mset (sort_insert cmp x ys) = add_mset x (mset ys)"
  by (induction ys) auto

lemma mset_js_sort: "mset (js_sort cmp xs) = mset xs"
  by (induction xs) (auto simp: js_sort_def mset_sort_insert)

lemma sort_insert_insort_key:
  assumes "\<And>y. js_positive (cmp x y) = (k y < k x)"
  shows "sort_insert cmp x ys = insort_key k x ys"
proof (induction ys)
  case Nil
  show ?case by simp
next
  case (Cons y ys)
  have "js_positive (cmp x y) = (\<not> k x \<le> k y)"
    by (simp only: assms not_le)
  with Cons.IH show ?case by simp
qed

lemma js_sort_sort_key:
  assumes "\<And>x y. js_positive (cmp x y) = (k y < k x)"
  shows "js_sort cmp xs = sort_key k xs"
proof (induction xs)
  case Nil
  show ?case by (simp add: js_sort_def sort_key_def)
next
  case (Cons x xs)
  have "sort_insert cmp x ys = insort_key k x ys" for ys
    by (rule sort_insert_insort_key) (rule assms)
  with Cons.IH show ?case by (simp add: js_sort_def sort_key_def)
qed

lemma isFinite_D: "isFinite n \<Longrightarrow> n = Finite (num_val n)"
  by (cases n) simp_all

lemma score_of_finite: "score_of Number raw = Finite (num_val (score_of Number raw))"
proof -
  have "isFinite (score_of Number raw)"
    by (simp add: score_of_def Let_def)
  then show ?thesis
    by (rule isFinite_D)
qed

lemma impact_cmp_key:
  "js_positive (impact_cmp Number a b) = (impact_key Number b < impact_key Number a)"
proof -
  obtain ra rb where "scoreImpact Number a = Finite ra" "scoreImpact Number b = Finite rb"
    unfolding scoreImpact_def using score_of_finite by blast
  then show ?thesis by (simp add: impact_cmp_def impact_key_def)
qed

lemma technical_cmp_key:
  "js_positive (technical_cmp Number a b) = (technical_key Number b < technical_key Number a)"
proof -
  obtain ra rb where "scoreTechnical Number a = Finite ra" "scoreTechnical Number b = Finite rb"
    unfolding scoreTechnical_def using score_of_finite by blast
  then show ?thesis by (simp add: technical_cmp_def technical_key_def)
qed

lemma recent_cmp_key:
  "js_positive (recent_cmp Number a b) = (recent_key Number b < recent_key Number a)"
proof -
  consider (ff) ra rb where "Number (getCardYear a) = Finite ra" "Number (getCardYear b) = Finite rb"
    | (fn) ra where "Number (getCardYear a) = Finite ra" "\<not> isFinite (Number (getCardYear b))"
    | (nf) rb where "\<not> isFinite (Number (getCardYear a))" "Number (getCardYear b) = Finite rb"
    | (nn) "\<not> isFinite (Number (getCardYear a))" "\<not> isFinite (Number (getCardYear b))"
    by (metis isFinite_iff)
  then show ?thesis
    by cases (auto simp: recent_cmp_def recent_key_def year_numeric_def Let_def)
qed

text \<open>Sorting by a score: descending, and stable.\<close>

lemma score_sort_descending:
  assumes fin: "\<And>c. score c = Finite (num_val (score c))"
  shows "sorted_wrt (\<lambda>a b. js_ge (score a) (score b)) (sort_key (\<lambda>c. - num_val (score c)) xs)"
proof -
  have "sorted (map (\<lambda>c. - num_val (score c)) (sort_key (\<lambda>c. - num_val (score c)) xs))"
    by (rule sorted_sort_key)
  then have "sorted_wrt (\<lambda>a b. - num_val (score a) \<le> - num_val (score b))
      (sort_key (\<lambda>c. - num_val (score c)) xs)"
    by (simp add: sorted_map)
  moreover have "js_ge (score a) (score b)" if "- num_val (score a) \<le> - num_val (score b)" for a b
  proof -
    have "js_ge (Finite (num_val (score a))) (Finite (num_val (score b)))" using that by simp
    then show ?thesis using fin [of a] fin [of b] by simp
  qed
  ultimately show ?thesis by (rule sorted_wrt_mono_rel [rotated]) simp
qed

lemma score_sort_stable:
  assumes fin: "\<And>c. score c = Finite (num_val (score c))"
  shows "filter (\<lambda>c. score c = v) (sort_key (\<lambda>c. - num_val (score c)) xs)
       = filter (\<lambda>c. score c = v) xs"
proof (cases "isFinite v")
  case True
  then have v: "v = Finite (num_val v)" by (rule isFinite_D)
  have eq: "(score c = v) = (- num_val (score c) = - num_val v)" for c
    using fin [of c] v by (metis jsnum.inject neg_equal_iff_equal)
  show ?thesis unfolding eq by (rule sort_key_stable)
next
  case False
  have "score c \<noteq> v" for c using fin [of c] False by (metis isFinite.simps(1))
  then show ?thesis by simp
qed


lemma visibleItemsInOrder_eq:
  "visibleItemsInOrder Number ui cards g
     = sort_visible Number ui (filter (matchesFilters ui) cards)"
  by (simp add: visibleItemsInOrder_def apply_filters_def Let_def)

lemma sort_visible_impact:
  "sortSelect ui = Some ''impact'' \<Longrightarrow>
     sort_visible Number ui xs = sort_key (\<lambda>c. - num_val (scoreImpact Number c)) xs"
  using js_sort_sort_key [of "impact_cmp Number" "impact_key Number", OF impact_cmp_key]
  by (simp add: sort_visible_def impact_key_def [abs_def])

lemma sort_visible_technical:
  "sortSelect ui = Some ''technical'' \<Longrightarrow>
     sort_visible Number ui xs = sort_key (\<lambda>c. - num_val (scoreTechnical Number c)) xs"
  using js_sort_sort_key [of "technical_cmp Number" "technical_key Number", OF technical_cmp_key]
  by (simp add: sort_visible_def technical_key_def [abs_def])

lemma sort_visible_recent:
  "sortSelect ui = None \<or> sortSelect ui = Some ''recent'' \<Longrightarrow>
     sort_visible Number ui xs = sort_key (recent_key Number) xs"
  using js_sort_sort_key [of "recent_cmp Number" "recent_key Number", OF recent_cmp_key]
  by (auto simp: sort_visible_def)

lemma mset_sort_visible: "mset (sort_visible Number ui xs) = mset xs"
  by (simp add: sort_visible_def Let_def mset_js_sort)

lemma scoreImpact_finite: "scoreImpact Number c = Finite (num_val (scoreImpact Number c))"
  unfolding scoreImpact_def by (rule score_of_finite)

lemma scoreTechnical_finite:
  "scoreTechnical Number c = Finite (num_val (scoreTechnical Number c))"
  unfolding scoreTechnical_def by (rule score_of_finite)

text \<open>
  C6. In the impact and in the technical sort mode the visible cards come in descending
  order of the score, and the cards of any one score keep the order they have in the
  catalog.
\<close>

theorem score_sort_descending_stable:
  "(sortSelect ui = Some ''impact'' \<longrightarrow>
      sorted_wrt (\<lambda>a b. js_ge (scoreImpact Number a) (scoreImpact Number b))
        (visibleItemsInOrder Number ui cards g)
      \<and> (\<forall>v. filter (\<lambda>c. scoreImpact Number c = v) (visibleItemsInOrder Number ui cards g)
             = filter (\<lambda>c. scoreImpact Number c = v) (filter (matchesFilters ui) cards)))
   \<and> (sortSelect ui = Some ''technical'' \<longrightarrow>
      sorted_wrt (\<lambda>a b. js_ge (scoreTechnical Number a) (scoreTechnical Number b))
        (visibleItemsInOrder Number ui cards g)
      \<and> (\<forall>v. filter (\<lambda>c. scoreTechnical Number c = v) (visibleItemsInOrder Number ui cards g)
             = filter (\<lambda>c. scoreTechnical Number c = v) (filter (matchesFilters ui) cards)))"
proof (intro conjI impI allI)
  assume "sortSelect ui = Some ''impact''"
  then have eq: "visibleItemsInOrder Number ui cards g
      = sort_key (\<lambda>c. - num_val (scoreImpact Number c)) (filter (matchesFilters ui) cards)"
    by (simp add: visibleItemsInOrder_eq sort_visible_impact)
  show "sorted_wrt (\<lambda>a b. js_ge (scoreImpact Number a) (scoreImpact Number b))
      (visibleItemsInOrder Number ui cards g)"
    unfolding eq by (rule score_sort_descending) (rule scoreImpact_finite)
  show "filter (\<lambda>c. scoreImpact Number c = v) (visibleItemsInOrder Number ui cards g)
      = filter (\<lambda>c. scoreImpact Number c = v) (filter (matchesFilters ui) cards)" for v
    unfolding eq by (rule score_sort_stable) (rule scoreImpact_finite)
next
  assume "sortSelect ui = Some ''technical''"
  then have eq: "visibleItemsInOrder Number ui cards g
      = sort_key (\<lambda>c. - num_val (scoreTechnical Number c)) (filter (matchesFilters ui) cards)"
    by (simp add: visibleItemsInOrder_eq sort_visible_technical)
  show "sorted_wrt (\<lambda>a b. js_ge (scoreTechnical Number a) (scoreTechnical Number b))
      (visibleItemsInOrder Number ui cards g)"
    unfolding eq by (rule score_sort_descending) (rule scoreTechnical_finite)
  show "filter (\<lambda>c. scoreTechnical Number c = v) (visibleItemsInOrder Number ui cards g)
      = filter (\<lambda>c. scoreTechnical Number c = v) (filter (matchesFilters ui) cards)" for v
    unfolding eq by (rule score_sort_stable) (rule scoreTechnical_finite)
qed

theorem score_sort_descending_stable_witness:
  "visibleItemsInOrder example_Number impact_sort [item0, item1, item2, item3] grid0
     = [item1, item0, item3, item2]
   \<and> sorted_wrt (\<lambda>a b. js_ge (scoreImpact example_Number a) (scoreImpact example_Number b))
       [item1, item0, item3, item2]
   \<and> filter (\<lambda>c. scoreImpact example_Number c = Finite 80) [item1, item0, item3, item2]
       = [item0, item3]"
proof -
  have v: "visibleItemsInOrder example_Number impact_sort [item0, item1, item2, item3] grid0
     = [item1, item0, item3, item2]"
    by (simp add: visibleItemsInOrder_eq sort_visible_def Let_def js_sort_def
        impact_cmp_def scoreImpact_def score_of_def example_Number_def is_digit_def
        digit_val_def matchesFilters_def item0_def item1_def item2_def item3_def
        impact_sort_def no_filter_def trim_def toLowerCase_def)
  have m: "filter (matchesFilters impact_sort) [item0, item1, item2, item3]
     = [item0, item1, item2, item3]"
    by (simp add: matchesFilters_def impact_sort_def no_filter_def trim_def toLowerCase_def)
  have s: "sortSelect impact_sort = Some ''impact''"
    by (simp add: impact_sort_def)
  have e: "filter (\<lambda>c. scoreImpact example_Number c = Finite 80) [item0, item1, item2, item3]
     = [item0, item3]"
    by (simp add: scoreImpact_def score_of_def example_Number_def is_digit_def
        digit_val_def item0_def item1_def item2_def item3_def)
  from score_sort_descending_stable
    [where ui = impact_sort and Number = example_Number
       and cards = "[item0, item1, item2, item3]" and g = grid0]
  show ?thesis unfolding v m using s e by simp
qed

lemma recent_key_le_numeric:
  "recent_key Number a \<le> recent_key Number b \<Longrightarrow> year_numeric Number b \<Longrightarrow> year_numeric Number a"
  by (auto simp: recent_key_def split: if_splits)

lemma recent_key_le_ge:
  assumes "recent_key Number a \<le> recent_key Number b"
    and "year_numeric Number a" and "year_numeric Number b"
  shows "js_ge (Number (getCardYear a)) (Number (getCardYear b))"
proof -
  from assms(2,3) obtain ra rb
    where "Number (getCardYear a) = Finite ra" "Number (getCardYear b) = Finite rb"
    unfolding year_numeric_def by (metis isFinite_iff)
  with assms show ?thesis by (simp add: recent_key_def)
qed

lemma recent_key_not_numeric: "(\<not> year_numeric Number c) = (recent_key Number c = (1, 0))"
  by (simp add: recent_key_def)

text \<open>
  C5. In the recent sort mode (no sort control, or its value \<open>"recent"\<close>) no card
  without a numeric year comes before a card with one; the cards with a numeric year are in
  descending order of year; the cards without one keep their catalog order, the comparator
  being 0 on any two of them; and where \<open>Number("all")\<close> is \<open>NaN\<close>, a card
  with no year is one of these.
\<close>

theorem recent_sort_order:
  assumes "sortSelect ui = None \<or> sortSelect ui = Some ''recent''"
  shows "sorted_wrt (\<lambda>a b. year_numeric Number b \<longrightarrow> year_numeric Number a)
           (visibleItemsInOrder Number ui cards g)
       \<and> sorted_wrt (\<lambda>a b. js_ge (Number (getCardYear a)) (Number (getCardYear b)))
           (filter (year_numeric Number) (visibleItemsInOrder Number ui cards g))
       \<and> filter (\<lambda>c. \<not> year_numeric Number c) (visibleItemsInOrder Number ui cards g)
           = filter (\<lambda>c. \<not> year_numeric Number c) (filter (matchesFilters ui) cards)
       \<and> (\<forall>a b. \<not> year_numeric Number a \<and> \<not> year_numeric Number b
             \<longrightarrow> recent_cmp Number a b = Finite 0)
       \<and> (Number ''all'' = NaN \<longrightarrow>
            (\<forall>c. data_year c = None \<or> data_year c = Some [] \<longrightarrow> \<not> year_numeric Number c))"
proof -
  let ?V = "visibleItemsInOrder Number ui cards g"
  from assms have eq: "?V = sort_key (recent_key Number) (filter (matchesFilters ui) cards)"
    by (simp add: visibleItemsInOrder_eq sort_visible_recent)
  have "sorted (map (recent_key Number) ?V)" unfolding eq by (rule sorted_sort_key)
  then have srt: "sorted_wrt (\<lambda>a b. recent_key Number a \<le> recent_key Number b) ?V"
    by (simp add: sorted_map)
  have 1: "sorted_wrt (\<lambda>a b. year_numeric Number b \<longrightarrow> year_numeric Number a) ?V"
    using srt by (rule sorted_wrt_mono_rel [rotated]) (blast intro: recent_key_le_numeric)
  have "sorted_wrt (\<lambda>a b. recent_key Number a \<le> recent_key Number b)
      (filter (year_numeric Number) ?V)"
    using srt by (rule sorted_wrt_filter)
  then have 2: "sorted_wrt (\<lambda>a b. js_ge (Number (getCardYear a)) (Number (getCardYear b)))
      (filter (year_numeric Number) ?V)"
    by (rule sorted_wrt_mono_rel [rotated]) (auto intro: recent_key_le_ge)
  have 3: "filter (\<lambda>c. \<not> year_numeric Number c) ?V
      = filter (\<lambda>c. \<not> year_numeric Number c) (filter (matchesFilters ui) cards)"
    unfolding eq recent_key_not_numeric by (rule sort_key_stable)
  have 4: "\<forall>a b. \<not> year_numeric Number a \<and> \<not> year_numeric Number b
      \<longrightarrow> recent_cmp Number a b = Finite 0"
    by (simp add: recent_cmp_def year_numeric_def Let_def)
  have 5: "Number ''all'' = NaN \<longrightarrow>
      (\<forall>c. data_year c = None \<or> data_year c = Some [] \<longrightarrow> \<not> year_numeric Number c)"
    by (auto simp: year_numeric_def getCardYear_def attr_or_def)
  from 1 2 3 4 5 show ?thesis by blast
qed

theorem recent_sort_order_witness:
  "visibleItemsInOrder example_Number no_filter [item3, item1, item0, item2] grid0
     = [item0, item2, item1, item3]
   \<and> filter (year_numeric example_Number) [item0, item2, item1, item3] = [item0, item2, item1]
   \<and> sorted_wrt (\<lambda>a b. js_ge (example_Number (getCardYear a)) (example_Number (getCardYear b)))
       [item0, item2, item1]
   \<and> example_Number ''all'' = NaN"
proof -
  have v: "visibleItemsInOrder example_Number no_filter [item3, item1, item0, item2] grid0
     = [item0, item2, item1, item3]"
    by (simp add: visibleItemsInOrder_eq sort_visible_def Let_def js_sort_def
        recent_cmp_def getCardYear_def attr_or_def example_Number_def is_digit_def
        digit_val_def matchesFilters_def item0_def item1_def item2_def item3_def
        no_filter_def trim_def toLowerCase_def)
  have n: "filter (year_numeric example_Number) [item0, item2, item1, item3]
     = [item0, item2, item1]"
    by (simp add: year_numeric_def getCardYear_def attr_or_def example_Number_def is_digit_def
        digit_val_def item0_def item1_def item2_def item3_def)
  have s: "sortSelect no_filter = None \<or> sortSelect no_filter = Some ''recent''"
    by (simp add: no_filter_def)
  have a: "example_Number ''all'' = NaN"
    by (simp add: example_Number_def is_digit_def)
  from recent_sort_order [OF s, where Number = example_Number
       and cards = "[item3, item1, item0, item2]" and g = grid0]
  show ?thesis unfolding v n using a by simp
qed

section \<open>The visible cards\<close>

text \<open>
  C1, as stated, fails for a query with white space around it: the code trims the query
  first. With the query \<open>" "\<close> the card \<open>item3\<close> is visible, though its
  searchable text has no space in it.
\<close>

theorem untrimmed_query_counterexample:
  "visibleItemsInOrder example_Number (no_filter\<lparr>searchInput := Some '' ''\<rparr>) [item3] grid0
     = [item3]
   \<and> spec_visible (no_filter\<lparr>searchInput := Some '' ''\<rparr>) [item3] = []"
  by code_simp

text \<open>
  C1, amended. With the text predicate taken on the trimmed query, the visible cards are,
  as a multiset, the cards of the catalog that pass the four predicates, in whatever order
  the predicates are listed.
\<close>

theorem visible_items_conjunction:
  assumes "mset ps = mset [text_predicate (trim (query_of ui)),
                           category_predicate (category_of ui),
                           year_predicate (year_of ui),
                           skill_predicate (set (selectedSkills ui))]"
  shows "mset (visibleItemsInOrder Number ui cards g)
       = mset (filter (\<lambda>c. list_all (\<lambda>p. p c) ps) cards)"
proof -
  from assms have "set ps = {text_predicate (trim (query_of ui)),
      category_predicate (category_of ui), year_predicate (year_of ui),
      skill_predicate (set (selectedSkills ui))}"
    by (metis list.simps(15) empty_set mset_eq_setD)
  then have "list_all (\<lambda>p. p c) ps = matchesFilters ui c" for c
    by (simp add: list_all_iff matchesFilters_conj)
  then show ?thesis
    by (simp add: visibleItemsInOrder_eq mset_sort_visible)
qed

theorem visible_items_conjunction_witness:
  "mset (visibleItemsInOrder example_Number (impact_sort\<lparr>categorySelect := Some ''x''\<rparr>)
           [item0, item1, item2] grid0)
     = mset (filter (\<lambda>c. list_all (\<lambda>p. p c)
                [skill_predicate (set (selectedSkills (impact_sort\<lparr>categorySelect := Some ''x''\<rparr>))),
                 year_predicate (year_of (impact_sort\<lparr>categorySelect := Some ''x''\<rparr>)),
                 category_predicate (category_of (impact_sort\<lparr>categorySelect := Some ''x''\<rparr>)),
                 text_predicate (trim (query_of (impact_sort\<lparr>categorySelect := Some ''x''\<rparr>)))])
              [item0, item1, item2])
   \<and> visibleItemsInOrder example_Number (impact_sort\<lparr>categorySelect := Some ''x''\<rparr>)
           [item0, item1, item2] grid0 = [item0, item2]"
proof
  show "mset (visibleItemsInOrder example_Number (impact_sort\<lparr>categorySelect := Some ''x''\<rparr>)
           [item0, item1, item2] grid0)
     = mset (filter (\<lambda>c. list_all (\<lambda>p. p c)
                [skill_predicate (set (selectedSkills (impact_sort\<lparr>categorySelect := Some ''x''\<rparr>))),
                 year_predicate (year_of (impact_sort\<lparr>categorySelect := Some ''x''\<rparr>)),
                 category_predicate (category_of (impact_sort\<lparr>categorySelect := Some ''x''\<rparr>)),
                 text_predicate (trim (query_of (impact_sort\<lparr>categorySelect := Some ''x''\<rparr>)))])
              [item0, item1, item2])"
    by (rule visible_items_conjunction) (simp add: add_mset_commute)
  show "visibleItemsInOrder example_Number (impact_sort\<lparr>categorySelect := Some ''x''\<rparr>)
           [item0, item1, item2] grid0 = [item0, item2]"
    by (simp add: visibleItemsInOrder_eq sort_visible_def Let_def js_sort_def
        impact_cmp_def scoreImpact_def score_of_def example_Number_def is_digit_def
        digit_val_def matchesFilters_def item0_def item1_def item2_def impact_sort_def
        no_filter_def getCardCategory_def attr_or_def trim_def toLowerCase_def)
qed

section \<open>Idempotence\<close>

lemma foldl_set_display:
  "foldl (set_display ui) d cards n =
     (case find (\<lambda>c. card_id c = n) (rev cards) of
        None \<Rightarrow> d n
      | Some c \<Rightarrow> if matchesFilters ui c then [] else ''none'')"
  by (induction cards rule: rev_induct) (auto simp: set_display_def)

lemma foldl_set_display_idem:
  "foldl (set_display ui) (foldl (set_display ui) d cards) cards
     = foldl (set_display ui) d cards"
proof
  fix n
  show "foldl (set_display ui) (foldl (set_display ui) d cards) cards n
      = foldl (set_display ui) d cards n"
    by (simp add: foldl_set_display split: option.split)
qed

subsection \<open>Moving cards in the tree\<close>

lemma forest_ids_append: "forest_ids (F @ G) = forest_ids F @ forest_ids G"
  by (induction F rule: forest_ids.induct) simp_all

lemma remove_node_append: "remove_node n (F @ G) = remove_node n F @ remove_node n G"
  by (induction F rule: forest_ids.induct) simp_all

lemma strip_append: "strip S (F @ G) = strip S F @ strip S G"
  by (induction F rule: forest_ids.induct) simp_all

lemma find_node_append:
  "find_node n (F @ G) = (case find_node n F of Some x \<Rightarrow> Some x | None \<Rightarrow> find_node n G)"
  by (induction F rule: forest_ids.induct) (simp_all split: option.split)

lemma find_node_None_iff: "find_node n F = None \<longleftrightarrow> n \<notin> set (forest_ids F)"
  by (induction F rule: forest_ids.induct) (auto split: option.splits)

lemma find_node_ids:
  "find_node n F = Some cs \<Longrightarrow> set (forest_ids cs) \<subseteq> set (forest_ids F)"
  by (induction F rule: forest_ids.induct) (auto split: option.splits if_splits)

lemma remove_node_strip: "remove_node n F = strip {n} F"
  by (induction F rule: forest_ids.induct) simp_all

lemma strip_strip: "strip S (strip T F) = strip (S \<union> T) F"
  by (induction F rule: forest_ids.induct) simp_all

lemma strip_id: "S \<inter> set (forest_ids F) = {} \<Longrightarrow> strip S F = F"
  by (induction F rule: forest_ids.induct) auto

lemma forest_ids_strip: "set (forest_ids (strip S F)) \<subseteq> set (forest_ids F) - S"
  by (induction F rule: forest_ids.induct) auto

lemma distinct_strip: "distinct (forest_ids F) \<Longrightarrow> distinct (forest_ids (strip S F))"
proof (induction F rule: forest_ids.induct)
  case 1
  show ?case by simp
next
  case (2 s ns)
  then show ?case by simp
next
  case (3 i cs ns)
  then show ?case
    using forest_ids_strip [of S cs] forest_ids_strip [of S ns] by auto
qed

text \<open>Removing a node that is there: its identities leave, the others stay.\<close>

lemma forest_ids_remove:
  assumes "distinct (forest_ids F)" and "find_node n F = Some cs"
  shows "set (forest_ids (remove_node n F)) = set (forest_ids F) - insert n (set (forest_ids cs))"
  using assms
proof (induction F rule: forest_ids.induct)
  case 1
  then show ?case by simp
next
  case (2 s ns)
  then show ?case by simp
next
  case (3 i ds ns)
  show ?case
  proof (cases "i = n")
    case True
    with 3 have "cs = ds" by simp
    moreover from "3.prems" True have "n \<notin> set (forest_ids ns)" by simp
    then have "remove_node n ns = ns" by (simp add: remove_node_strip strip_id)
    ultimately show ?thesis using "3.prems" True by auto
  next
    case False
    show ?thesis
    proof (cases "find_node n ds")
      case (Some x)
      with 3 False have x: "x = cs" by simp
      from Some have "n \<in> set (forest_ids ds)" by (metis find_node_None_iff option.distinct(1))
      with "3.prems" have "n \<notin> set (forest_ids ns)" by auto
      then have r: "remove_node n ns = ns" by (simp add: remove_node_strip strip_id)
      from "3.prems" have "distinct (forest_ids ds)" by simp
      with "3.IH"(1) False Some x
      have "set (forest_ids (remove_node n ds)) = set (forest_ids ds) - insert n (set (forest_ids cs))"
        by simp
      moreover from find_node_ids [OF Some] x have "set (forest_ids cs) \<subseteq> set (forest_ids ds)"
        by simp
      ultimately show ?thesis using "3.prems" False r \<open>n \<in> set (forest_ids ds)\<close> by auto
    next
      case None
      with 3 False have f: "find_node n ns = Some cs" by simp
      from None have "n \<notin> set (forest_ids ds)" by (simp add: find_node_None_iff)
      then have r: "remove_node n ds = ds" by (simp add: remove_node_strip strip_id)
      from "3.prems" have "distinct (forest_ids ns)" by simp
      with "3.IH"(2) False None f
      have "set (forest_ids (remove_node n ns)) = set (forest_ids ns) - insert n (set (forest_ids cs))"
        by simp
      moreover from find_node_ids [OF f] have "set (forest_ids cs) \<subseteq> set (forest_ids ns)" .
      moreover from f have "n \<in> set (forest_ids ns)" by (metis find_node_None_iff option.distinct(1))
      ultimately show ?thesis using "3.prems" False r by auto
    qed
  qed
qed

lemma find_node_distinct:
  "distinct (forest_ids F) \<Longrightarrow> find_node n F = Some cs \<Longrightarrow> distinct (n # forest_ids cs)"
proof (induction F rule: forest_ids.induct)
  case 1
  then show ?case by simp
next
  case (2 s ns)
  then show ?case by simp
next
  case (3 i ds ns)
  then show ?case by (auto split: if_splits option.splits)
qed

text \<open>On the children of the grid, appending in the tree is appending in the list.\<close>

lemma child_ids_append: "child_ids (F @ G) = child_ids F @ child_ids G"
  by (induction F rule: forest_ids.induct) simp_all

lemma child_ids_remove: "child_ids (remove_node n F) = removeAll n (child_ids F)"
  by (induction F rule: forest_ids.induct) auto

lemma child_ids_appendChild:
  "find_node n F \<noteq> None \<Longrightarrow>
     child_ids (grid_appendChild F n) = appendChild (child_ids F) n"
  by (auto simp: grid_appendChild_def appendChild_def child_ids_append child_ids_remove)

text \<open>Removing one element leaves another where it is, when neither is inside the other.\<close>

lemma find_node_remove:
  assumes "distinct (forest_ids F)"
    and "find_node k F = Some ds"
    and "n \<notin> set (forest_ids ds)"
    and "n \<noteq> k"
    and "\<And>cs. find_node n F = Some cs \<Longrightarrow> k \<notin> set (forest_ids cs)"
  shows "find_node k (remove_node n F) = Some ds"
  using assms
proof (induction F rule: forest_ids.induct)
  case 1
  then show ?case by simp
next
  case (2 s ns)
  then show ?case by simp
next
  case (3 i hs ns)
  note d = "3.prems"(1) and f = "3.prems"(2) and nd = "3.prems"(3) and nk = "3.prems"(4)
    and out = "3.prems"(5)
  show ?case
  proof (cases "i = n")
    case True
    then have "find_node n (ElementNode i hs # ns) = Some hs" by simp
    then have "k \<notin> set (forest_ids hs)" by (rule out)
    then have "find_node k hs = None" by (simp add: find_node_None_iff)
    with f True nk have "find_node k ns = Some ds" by simp
    moreover from d True have "n \<notin> set (forest_ids ns)" by simp
    then have "remove_node n ns = ns" by (simp add: remove_node_strip strip_id)
    ultimately show ?thesis using True by simp
  next
    case False
    show ?thesis
    proof (cases "i = k")
      case True
      with f have "ds = hs" by simp
      with nd have "remove_node n hs = hs" by (simp add: remove_node_strip strip_id)
      with True False \<open>ds = hs\<close> show ?thesis by simp
    next
      case ik: False
      show ?thesis
      proof (cases "find_node k hs")
        case (Some x)
        with f ik have x: "x = ds" by simp
        have "find_node k (remove_node n hs) = Some ds"
        proof (rule "3.IH"(1))
          show "distinct (forest_ids hs)" using d by simp
          show "find_node k hs = Some ds" using Some x by simp
          show "n \<notin> set (forest_ids ds)" by (rule nd)
          show "n \<noteq> k" by (rule nk)
          show "k \<notin> set (forest_ids cs)" if "find_node n hs = Some cs" for cs
          proof (rule out)
            show "find_node n (ElementNode i hs # ns) = Some cs" using that False by simp
          qed
        qed
        with False ik show ?thesis by simp
      next
        case None
        with f ik have fk: "find_node k ns = Some ds" by simp
        from None have "k \<notin> set (forest_ids hs)" by (simp add: find_node_None_iff)
        with forest_ids_strip [of "{n}" hs] have "k \<notin> set (forest_ids (remove_node n hs))"
          by (auto simp: remove_node_strip)
        then have a: "find_node k (remove_node n hs) = None" by (simp add: find_node_None_iff)
        have "find_node k (remove_node n ns) = Some ds"
        proof (rule "3.IH"(2))
          show "distinct (forest_ids ns)" using d by simp
          show "find_node k ns = Some ds" by (rule fk)
          show "n \<notin> set (forest_ids ds)" by (rule nd)
          show "n \<noteq> k" by (rule nk)
          show "k \<notin> set (forest_ids cs)" if "find_node n ns = Some cs" for cs
          proof (rule out)
            from that have "n \<in> set (forest_ids ns)"
              by (metis find_node_None_iff option.distinct(1))
            with d have "n \<notin> set (forest_ids hs)" by auto
            then have "find_node n hs = None" by (simp add: find_node_None_iff)
            with that False show "find_node n (ElementNode i hs # ns) = Some cs" by simp
          qed
        qed
        with a False ik show ?thesis by simp
      qed
    qed
  qed
qed

lemma distinct_appendChild:
  assumes "distinct (forest_ids F)"
  shows "distinct (forest_ids (grid_appendChild F n))"
proof (cases "find_node n F")
  case None
  with assms show ?thesis by (simp add: grid_appendChild_def)
next
  case (Some cs)
  have "distinct (forest_ids (remove_node n F))"
    using assms by (simp add: remove_node_strip distinct_strip)
  moreover have "distinct (n # forest_ids cs)"
    using assms Some by (rule find_node_distinct)
  moreover have "set (forest_ids (remove_node n F)) \<inter> set (n # forest_ids cs) = {}"
    using forest_ids_remove [OF assms Some] by auto
  ultimately show ?thesis
    using Some by (simp add: grid_appendChild_def forest_ids_append)
qed

text \<open>Moving one card to the end leaves every card as it is, when no card is inside another.\<close>

lemma find_node_appendChild:
  assumes "distinct (forest_ids F)"
    and "\<not> nested_in F n k"
    and "\<not> nested_in F k n"
  shows "find_node k (grid_appendChild F n) = find_node k F"
proof (cases "find_node n F")
  case None
  then show ?thesis by (simp add: grid_appendChild_def)
next
  case (Some cs)
  have gone: "find_node n (remove_node n F) = None"
    using forest_ids_strip [of "{n}" F] by (auto simp: find_node_None_iff remove_node_strip)
  show ?thesis
  proof (cases "k = n")
    case True
    with Some gone show ?thesis
      by (simp add: grid_appendChild_def find_node_append)
  next
    case False
    show ?thesis
    proof (cases "find_node k F")
      case None
      then have "k \<notin> set (forest_ids F)" by (simp add: find_node_None_iff)
      moreover have "set (forest_ids (remove_node n F)) \<subseteq> set (forest_ids F)"
        using forest_ids_strip [of "{n}" F] by (auto simp: remove_node_strip)
      moreover have "set (forest_ids cs) \<subseteq> set (forest_ids F)"
        using Some by (rule find_node_ids)
      ultimately have "k \<notin> set (forest_ids (remove_node n F @ [ElementNode n cs]))"
        using False by (auto simp: forest_ids_append)
      then have "find_node k (remove_node n F @ [ElementNode n cs]) = None"
        by (simp add: find_node_None_iff)
      with None Some show ?thesis by (simp add: grid_appendChild_def)
    next
      case (Some ds)
      have "find_node k (remove_node n F) = Some ds"
      proof (rule find_node_remove [OF assms(1) Some])
        show "n \<notin> set (forest_ids ds)" using assms(2) Some by (simp add: nested_in_def)
        show "n \<noteq> k" using False by simp
        show "k \<notin> set (forest_ids cs')" if "find_node n F = Some cs'" for cs'
          using assms(3) that by (simp add: nested_in_def)
      qed
      with Some \<open>find_node n F = Some cs\<close> show ?thesis
        by (simp add: grid_appendChild_def find_node_append)
    qed
  qed
qed

lemma no_nested_cards_iff:
  "no_nested_cards F ids \<longleftrightarrow> (\<forall>n \<in> set ids. \<forall>k \<in> set ids. \<not> nested_in F k n)"
  by (simp add: no_nested_cards_def list_all_iff)

lemma no_nested_cards_cong:
  assumes "\<And>k. k \<in> set ids \<Longrightarrow> find_node k G = find_node k F"
  shows "no_nested_cards G ids = no_nested_cards F ids"
  using assms by (simp add: no_nested_cards_iff nested_in_def)

lemma foldl_appendChild_inv:
  assumes "distinct (forest_ids F)"
    and "no_nested_cards F ids"
    and "set js \<subseteq> set ids"
  shows "distinct (forest_ids (foldl grid_appendChild F js))
       \<and> (\<forall>k \<in> set ids. find_node k (foldl grid_appendChild F js) = find_node k F)"
  using assms
proof (induction js arbitrary: F)
  case Nil
  then show ?case by simp
next
  case (Cons n js)
  let ?G = "grid_appendChild F n"
  from Cons.prems have n: "n \<in> set ids" by simp
  have same: "find_node k ?G = find_node k F" if "k \<in> set ids" for k
    using Cons.prems(1,2) n that by (intro find_node_appendChild) (auto simp: no_nested_cards_iff)
  have "distinct (forest_ids ?G)" using Cons.prems(1) by (rule distinct_appendChild)
  moreover have "no_nested_cards ?G ids"
    using Cons.prems(2) no_nested_cards_cong [of ids ?G F] same by simp
  moreover have "set js \<subseteq> set ids" using Cons.prems(3) by simp
  ultimately have "distinct (forest_ids (foldl grid_appendChild ?G js))
       \<and> (\<forall>k \<in> set ids. find_node k (foldl grid_appendChild ?G js) = find_node k ?G)"
    by (rule Cons.IH)
  with same show ?case by simp
qed

lemma strip_nodes:
  "set js \<subseteq> S \<Longrightarrow> strip S (map (\<lambda>n. ElementNode n (f n)) js) = []"
  by (induction js) auto

lemma forest_ids_nodes:
  "set (forest_ids (map (\<lambda>n. ElementNode n (f n)) js))
     = (\<Union>n \<in> set js. insert n (set (forest_ids (f n))))"
  by (induction js) (auto simp: forest_ids_append)

text \<open>
  Re-appending cards none of which is inside another: what is left of the grid without
  them, followed by the cards in their order.
\<close>

lemma foldl_appendChild_closed:
  assumes "distinct (forest_ids F)"
    and "no_nested_cards F ids"
    and "cards_in_grid F ids"
    and "set js \<subseteq> set ids"
    and "distinct js"
  shows "foldl grid_appendChild F js
       = strip (set js) F @ map (\<lambda>n. ElementNode n (the (find_node n F))) js"
  using assms(4,5)
proof (induction js rule: rev_induct)
  case Nil
  show ?case by (simp add: strip_id)
next
  case (snoc n js)
  let ?N = "map (\<lambda>n. ElementNode n (the (find_node n F))) js"
  let ?G = "foldl grid_appendChild F js"
  from snoc.prems have n: "n \<in> set ids" and js: "set js \<subseteq> set ids"
    and dj: "distinct js" and nj: "n \<notin> set js" by auto
  from snoc.IH [OF js dj] have G: "?G = strip (set js) F @ ?N" .
  from assms(3) n obtain cs where cs: "find_node n F = Some cs"
    by (auto simp: cards_in_grid_def list_all_iff)
  from foldl_appendChild_inv [OF assms(1,2) js] n cs have fG: "find_node n ?G = Some cs"
    by simp
  have "n \<notin> set (forest_ids ?N)"
  proof
    assume "n \<in> set (forest_ids ?N)"
    then obtain m where m: "m \<in> set js" and "n = m \<or> n \<in> set (forest_ids (the (find_node m F)))"
      by (auto simp: forest_ids_nodes)
    with nj have i: "n \<in> set (forest_ids (the (find_node m F)))" by auto
    from m js have mi: "m \<in> set ids" by auto
    with assms(3) obtain ds where ds: "find_node m F = Some ds"
      by (auto simp: cards_in_grid_def list_all_iff)
    with i have "nested_in F n m" by (simp add: nested_in_def)
    with assms(2) n mi show False by (simp add: no_nested_cards_iff)
  qed
  then have sN: "strip {n} ?N = ?N" by (simp add: strip_id)
  have "foldl grid_appendChild F (js @ [n]) = grid_appendChild ?G n" by simp
  also have "\<dots> = remove_node n ?G @ [ElementNode n cs]"
    using fG by (simp add: grid_appendChild_def)
  also have "remove_node n ?G = strip (insert n (set js)) F @ ?N"
    by (simp add: G remove_node_strip strip_append strip_strip sN)
  finally show ?case using cs by simp
qed

lemma foldl_appendChild_twice:
  assumes "distinct (forest_ids F)"
    and "no_nested_cards F ids"
    and "cards_in_grid F ids"
    and "set js \<subseteq> set ids"
    and "distinct js"
  shows "foldl grid_appendChild (foldl grid_appendChild F js) js = foldl grid_appendChild F js"
proof -
  let ?N = "map (\<lambda>n. ElementNode n (the (find_node n F))) js"
  let ?G = "foldl grid_appendChild F js"
  from foldl_appendChild_inv [OF assms(1,2,4)]
  have dG: "distinct (forest_ids ?G)"
    and same: "\<And>k. k \<in> set ids \<Longrightarrow> find_node k ?G = find_node k F" by auto
  have nG: "no_nested_cards ?G ids"
    using assms(2) no_nested_cards_cong [of ids ?G F] same by simp
  have cG: "cards_in_grid ?G ids"
    using assms(3) same by (simp add: cards_in_grid_def list_all_iff)
  have G: "?G = strip (set js) F @ ?N"
    using assms by (rule foldl_appendChild_closed)
  have "map (\<lambda>n. ElementNode n (the (find_node n ?G))) js = ?N"
    using same assms(4) by (intro map_cong) auto
  with foldl_appendChild_closed [OF dG nG cG assms(4,5)]
  have "foldl grid_appendChild ?G js = strip (set js) ?G @ ?N" by simp
  also have "strip (set js) ?G = strip (set js) F @ strip (set js) ?N"
    by (subst G) (simp add: strip_append strip_strip)
  also have "strip (set js) ?N = []" by (simp add: strip_nodes)
  finally show ?thesis using G by simp
qed

subsection \<open>Calling apply twice\<close>

lemma card_id_read_card: "card_id (read_card F c) = card_id c"
  by (simp add: read_card_def)

lemma apply_document_output:
  "snd (apply_document Number ui cards doc)
     = snd (apply_filters Number ui (map (read_card (grid_nodes doc)) cards) g)"
  by (simp add: apply_document_def apply_filters_def Let_def)

lemma distinct_sort_visible_ids:
  assumes "distinct (map card_id xs)"
  shows "distinct (map card_id (sort_visible Number ui (filter P xs)))"
proof -
  have "mset (map card_id (sort_visible Number ui (filter P xs)))
      = mset (map card_id (filter P xs))"
    by (simp add: mset_sort_visible)
  moreover have "distinct (map card_id (filter P xs))"
    using assms by (rule distinct_map_filter)
  ultimately show ?thesis by (metis mset_eq_imp_distinct_iff)
qed

lemma set_sort_visible: "set (sort_visible Number ui xs) = set xs"
  using mset_sort_visible [of Number ui xs] by (rule mset_eq_setD)

text \<open>
  C8, as stated, fails when a card holds another card. With the query \<open>"beta"\<close> the
  first call shows both cards, the outer one because the text of the inner one is part of
  its text; re-appending the inner card takes it out of the outer one, and the second call
  shows the inner card only.
\<close>

theorem reappended_nested_card_counterexample:
  "map card_id (fst (snd (apply_document example_Number
       (no_filter\<lparr>searchInput := Some ''beta''\<rparr>) [outer_card, inner_card] nested_doc)))
     = [4, 5]
   \<and> grid_nodes (fst (apply_document example_Number
       (no_filter\<lparr>searchInput := Some ''beta''\<rparr>) [outer_card, inner_card] nested_doc))
     = [ElementNode 4 [TextNode ''Alpha ''], ElementNode 5 [TextNode ''Beta'']]
   \<and> map card_id (fst (snd (apply_document example_Number
       (no_filter\<lparr>searchInput := Some ''beta''\<rparr>) [outer_card, inner_card]
       (fst (apply_document example_Number
          (no_filter\<lparr>searchInput := Some ''beta''\<rparr>) [outer_card, inner_card] nested_doc)))))
     = [5]"
proof -
  let ?ui = "no_filter\<lparr>searchInput := Some ''beta''\<rparr>"
  have n: "grid_nodes nested_doc
        = [ElementNode 4 [TextNode ''Alpha '', ElementNode 5 [TextNode ''Beta'']]]"
      "card_display nested_doc = (\<lambda>n. [])" "empty_hidden nested_doc = Some True"
    by (simp_all add: nested_doc_def)
  have ids: "card_id outer_card = 4" "card_id inner_card = 5"
      "card_id (outer_card\<lparr>textContent := ''Alpha ''\<rparr>) = 4"
    by (simp_all add: outer_card_def inner_card_def)
  have r1: "map (read_card (grid_nodes nested_doc)) [outer_card, inner_card]
      = [outer_card, inner_card]"
    by (simp add: read_card_def nested_doc_def outer_card_def inner_card_def)
  have m: "matchesFilters ?ui outer_card" "matchesFilters ?ui inner_card"
    "\<not> matchesFilters ?ui (outer_card\<lparr>textContent := ''Alpha ''\<rparr>)"
    by code_simp+
  have s1: "sort_visible example_Number ?ui [outer_card, inner_card] = [outer_card, inner_card]"
    by (simp add: sort_visible_def no_filter_def js_sort_def recent_cmp_def getCardYear_def
        attr_or_def example_Number_def is_digit_def outer_card_def inner_card_def)
  have s2: "sort_visible example_Number ?ui [inner_card] = [inner_card]"
    by (simp add: sort_visible_def no_filter_def js_sort_def)
  have t: "grid_appendChild (grid_appendChild
        [ElementNode 4 [TextNode ''Alpha '', ElementNode 5 [TextNode ''Beta'']]] 4) 5
      = [ElementNode 4 [TextNode ''Alpha ''], ElementNode 5 [TextNode ''Beta'']]"
    by (simp add: grid_appendChild_def)
  have a1: "apply_document example_Number ?ui [outer_card, inner_card] nested_doc
      = (\<lparr>grid_nodes = [ElementNode 4 [TextNode ''Alpha ''], ElementNode 5 [TextNode ''Beta'']],
          card_display = foldl (set_display ?ui) (\<lambda>n. []) [outer_card, inner_card],
          empty_hidden = Some True\<rparr>, [outer_card, inner_card], False)"
    unfolding apply_document_def Let_def r1
    by (simp add: m s1 n ids t)
  have r2: "read_card [ElementNode 4 [TextNode ''Alpha ''], ElementNode 5 [TextNode ''Beta'']]
        outer_card = outer_card\<lparr>textContent := ''Alpha ''\<rparr>"
      "read_card [ElementNode 4 [TextNode ''Alpha ''], ElementNode 5 [TextNode ''Beta'']]
        inner_card = inner_card"
    by (simp_all add: read_card_def outer_card_def inner_card_def)
  show ?thesis
    unfolding a1
    by (simp add: apply_document_def Let_def r2 m s2 ids)
qed

text \<open>
  C8, amended. In a grid whose elements are distinct, with distinct cards that are in the
  grid and none of which is below another, a second call of \<open>apply\<close> on the document
  the first call left, with the same controls, returns the same document, the same
  visible cards in the same order and the same emptiness flag.
\<close>

theorem apply_document_idempotent:
  assumes "distinct (forest_ids (grid_nodes doc))"
    and "distinct (map card_id cards)"
    and "cards_in_grid (grid_nodes doc) (map card_id cards)"
    and "no_nested_cards (grid_nodes doc) (map card_id cards)"
  shows "apply_document Number ui cards (fst (apply_document Number ui cards doc))
       = apply_document Number ui cards doc"
proof -
  let ?F = "grid_nodes doc"
  let ?ids = "map card_id cards"
  let ?read = "map (read_card ?F) cards"
  let ?sorted = "sort_visible Number ui (filter (matchesFilters ui) ?read)"
  let ?js = "map card_id ?sorted"
  let ?G = "foldl grid_appendChild ?F ?js"
  have ids: "map card_id ?read = ?ids"
    by (simp add: card_id_read_card)
  have sub: "set ?js \<subseteq> set ?ids"
  proof -
    have "set ?sorted \<subseteq> set ?read" by (auto simp: set_sort_visible)
    then have "set ?js \<subseteq> set (map card_id ?read)" by auto
    then show ?thesis by (simp only: ids)
  qed
  have "distinct (map card_id ?read)"
    using assms(2) by (simp only: ids)
  then have dj: "distinct ?js"
    by (rule distinct_sort_visible_ids)
  from foldl_appendChild_inv [OF assms(1,4) sub]
  have same: "\<And>k. k \<in> set ?ids \<Longrightarrow> find_node k ?G = find_node k ?F" by auto
  have read: "map (read_card ?G) cards = ?read"
    using same by (intro map_cong) (auto simp: read_card_def)
  have twice: "foldl grid_appendChild ?G ?js = ?G"
    using assms(1,4,3) sub dj by (rule foldl_appendChild_twice)
  have g: "grid_nodes (fst (apply_document Number ui cards doc)) = ?G"
    by (simp add: apply_document_def Let_def)
  show ?thesis
    unfolding apply_document_def [of Number ui cards "fst (apply_document Number ui cards doc)"]
      g read
    by (simp add: apply_document_def Let_def twice foldl_set_display_idem split: option.split)
qed

theorem apply_document_idempotent_witness:
  "distinct (forest_ids (grid_nodes flat_doc))
   \<and> distinct (map card_id [item0, item1, item2])
   \<and> cards_in_grid (grid_nodes flat_doc) (map card_id [item0, item1, item2])
   \<and> no_nested_cards (grid_nodes flat_doc) (map card_id [item0, item1, item2])
   \<and> fst (snd (apply_document example_Number (impact_sort\<lparr>categorySelect := Some ''x''\<rparr>)
         [item0, item1, item2] flat_doc)) = [item0, item2]
   \<and> grid_nodes (fst (apply_document example_Number
         (impact_sort\<lparr>categorySelect := Some ''x''\<rparr>) [item0, item1, item2] flat_doc))
       = [ElementNode 9 [ElementNode 1 [TextNode ''Wind Tunnel'']],
          TextNode '' '',
          ElementNode 0 [ElementNode 7 [TextNode ''Brake''], TextNode '' Rotor''],
          ElementNode 2 [TextNode ''Pedal Box'']]
   \<and> apply_document example_Number (impact_sort\<lparr>categorySelect := Some ''x''\<rparr>)
         [item0, item1, item2]
         (fst (apply_document example_Number (impact_sort\<lparr>categorySelect := Some ''x''\<rparr>)
            [item0, item1, item2] flat_doc))
       = apply_document example_Number (impact_sort\<lparr>categorySelect := Some ''x''\<rparr>)
           [item0, item1, item2] flat_doc"
proof -
  let ?ui = "impact_sort\<lparr>categorySelect := Some ''x''\<rparr>"
  have ids: "map card_id [item0, item1, item2] = [0, 1, 2]"
    by (simp add: item0_def item1_def item2_def)
  have d: "distinct (forest_ids (grid_nodes flat_doc))"
    by (simp add: flat_doc_def)
  have c: "distinct (map card_id [item0, item1, item2])"
    unfolding ids by simp
  have g: "cards_in_grid (grid_nodes flat_doc) (map card_id [item0, item1, item2])"
    unfolding ids by (simp add: cards_in_grid_def flat_doc_def)
  have n: "no_nested_cards (grid_nodes flat_doc) (map card_id [item0, item1, item2])"
    unfolding ids by (simp add: no_nested_cards_def nested_in_def flat_doc_def)
  have r: "map (read_card (grid_nodes flat_doc)) [item0, item1, item2] = [item0, item1, item2]"
    by (simp add: read_card_def flat_doc_def item0_def item1_def item2_def)
  have v: "sort_visible example_Number ?ui (filter (matchesFilters ?ui) [item0, item1, item2])
      = [item0, item2]"
    by (simp add: sort_visible_def Let_def js_sort_def
        impact_cmp_def scoreImpact_def score_of_def example_Number_def is_digit_def
        digit_val_def matchesFilters_def item0_def item1_def item2_def impact_sort_def
        no_filter_def getCardCategory_def attr_or_def trim_def toLowerCase_def)
  have a: "grid_appendChild (grid_appendChild (grid_nodes flat_doc) 0) 2
      = [ElementNode 9 [ElementNode 1 [TextNode ''Wind Tunnel'']],
          TextNode '' '',
          ElementNode 0 [ElementNode 7 [TextNode ''Brake''], TextNode '' Rotor''],
          ElementNode 2 [TextNode ''Pedal Box'']]"
    by (simp add: grid_appendChild_def flat_doc_def)
  have i: "card_id item0 = 0" "card_id item2 = 2"
    by (simp_all add: item0_def item2_def)
  have o: "fst (snd (apply_document example_Number ?ui [item0, item1, item2] flat_doc))
      = [item0, item2]"
    unfolding apply_document_def Let_def r v by simp
  have t: "grid_nodes (fst (apply_document example_Number ?ui [item0, item1, item2] flat_doc))
      = [ElementNode 9 [ElementNode 1 [TextNode ''Wind Tunnel'']],
          TextNode '' '',
          ElementNode 0 [ElementNode 7 [TextNode ''Brake''], TextNode '' Rotor''],
          ElementNode 2 [TextNode ''Pedal Box'']]"
    unfolding apply_document_def Let_def r v by (simp add: i a)
  from apply_document_idempotent [OF d c g n, where Number = example_Number and ui = ?ui]
    d c g n o t
  show ?thesis by simp
qed

section \<open>Modals: the focus trap, opening and closing\<close>

lemma getFocusable_content:
  "getFocusable [close1, img1, input1, link1] = [close1, input1, link1]"
  by (simp add: getFocusable_def qsa_def selectors_def getAttribute_def offsetParent_def
      close1_def img1_def input1_def link1_def)


lemma ident_examples: "ident close1 = 11" "ident input1 = 14" "ident link1 = 13"
  by (simp_all add: close1_def input1_def link1_def)

lemma page_dom_simps:
  "modals page_dom = [10, 20]"
  "subtree page_dom 10 = [close1, img1, input1, link1]"
  "has_focus_method page_dom n"
  "accepts_focus page_dom n = (n \<in> {5, 11, 13, 14, 21})"
  by (simp_all add: page_dom_def)

lemma open1_eq:
  "open1 = \<lparr>activeElement = Some 11, lastFocus = Some 5, is_open = {10},
     aria_hidden = [10 \<mapsto> ''true'', 20 \<mapsto> ''true'', 10 \<mapsto> ''false''],
     body_overflow = ''hidden''\<rparr>"
  by (simp add: open1_def openModal_def Let_def getFocusable_content focus_def page0_def
      ident_examples page_dom_simps)




text \<open>
  C3. A modal opened while the focus is on \<open>t\<close> and then closed, \<open>t\<close> still
  having a \<open>focus\<close> method and taking the focus, leaves the focus on \<open>t\<close>; after
  the close no trigger is recorded, and a later close of any modal, wherever the focus has
  gone meanwhile, leaves the focus there.
\<close>

theorem focus_restored_on_close:
  assumes "activeElement s = Some t"
    and "has_focus_method d2 t"
    and "accepts_focus d2 t"
  shows "activeElement (closeModal d2 (Some m) (openModal d1 (Some m) s)) = Some t
       \<and> lastFocus (closeModal d2 (Some m) (openModal d1 (Some m) s)) = None
       \<and> (\<forall>d3 m3 a. activeElement
             (closeModal d3 m3 ((closeModal d2 (Some m) (openModal d1 (Some m) s))
                \<lparr>activeElement := a\<rparr>)) = a)"
  using assms
  by (auto simp: closeModal_def openModal_def focus_def Let_def split: list.split option.split)

theorem focus_restored_on_close_witness:
  "activeElement page0 = Some 5
   \<and> activeElement open1 = Some 11
   \<and> activeElement (closeModal page_dom (Some 10) (openModal page_dom (Some 10) page0)) = Some 5
   \<and> lastFocus (closeModal page_dom (Some 10) (openModal page_dom (Some 10) page0)) = None
   \<and> activeElement (closeModal page_dom (Some 20)
        ((closeModal page_dom (Some 10) (openModal page_dom (Some 10) page0))
           \<lparr>activeElement := Some 21\<rparr>)) = Some 21"
proof -
  have a: "activeElement page0 = Some 5" by (simp add: page0_def)
  have h: "has_focus_method page_dom 5" by (simp add: page_dom_simps)
  have c: "accepts_focus page_dom 5" by (simp add: page_dom_simps)
  from focus_restored_on_close [OF a h c, where m = 10 and ?d1.0 = page_dom] a
  show ?thesis by (simp add: open1_eq)
qed

text \<open>
  C9, as stated, fails while another modal is open: closing the closed modal 20 while
  modal 10 is open restores the background scroll and moves the focus from the open modal
  back to the trigger.
\<close>

theorem close_closed_modal_counterexample:
  "modal_closed open1 20
   \<and> body_overflow open1 = ''hidden''
   \<and> body_overflow (closeModal page_dom (Some 20) open1) = []
   \<and> activeElement open1 = Some 11
   \<and> activeElement (closeModal page_dom (Some 20) open1) = Some 5
   \<and> closeModal page_dom (Some 20) open1 \<noteq> open1"
proof -
  have "closeModal page_dom (Some 20) open1
      = \<lparr>activeElement = Some 5, lastFocus = None, is_open = {10},
          aria_hidden = [10 \<mapsto> ''true'', 20 \<mapsto> ''true'', 10 \<mapsto> ''false'', 20 \<mapsto> ''true''],
          body_overflow = []\<rparr>"
    by (simp add: closeModal_def Let_def open1_eq focus_def page_dom_simps)
  then show ?thesis by (simp add: open1_eq modal_closed_def)
qed

text \<open>
  C9, amended. Closing a modal that is in the Closed state changes nothing when no trigger
  is recorded and the background scroll is not suspended, which is the state every close
  leaves: closing a modal a second time right after closing it changes nothing. Closing
  no modal at all changes nothing.
\<close>

theorem close_closed_modal_noop:
  assumes "modal_closed s m"
    and "lastFocus s = None"
    and "body_overflow s = []"
  shows "closeModal d (Some m) s = s
       \<and> closeModal d' (Some m0) (closeModal d (Some m0) s0) = closeModal d (Some m0) s0
       \<and> closeModal d None s0 = s0"
  using assms
  by (auto simp: closeModal_def modal_closed_def focus_def Let_def fun_upd_idem
      split: option.split)

theorem close_closed_modal_noop_witness:
  "modal_closed page0 20 \<and> lastFocus page0 = None \<and> body_overflow page0 = []
   \<and> closeModal page_dom (Some 20) page0 = page0
   \<and> closeModal page_dom (Some 10) (closeModal page_dom (Some 10) open1)
        = closeModal page_dom (Some 10) open1"
proof -
  have a: "modal_closed page0 20" by (simp add: modal_closed_def page0_def)
  have b: "lastFocus page0 = None" by (simp add: page0_def)
  have c: "body_overflow page0 = []" by (simp add: page0_def)
  from close_closed_modal_noop [OF a b c, where d = page_dom]
    close_closed_modal_noop [OF a b c, where d = page_dom and d' = page_dom
      and ?s0.0 = open1 and ?m0.0 = 10] a b c
  show ?thesis by simp
qed

section \<open>The focusable elements of a container\<close>






end
